theory Spec2Isabelle
  imports Main "HOL-Library.Sublist" "HOL-Library.Log_Nat"
begin

section \<open>Python values used by the subtitle translation handler\<close>

text \<open>
  A Python \<open>str\<close> is a sequence of Unicode code points. The placeholder the handler
  writes is U+3000, which is no 8-bit character, so strings are lists of code points.
  \<open>u\<close> reads an ASCII literal of the source.
\<close>

type_synonym ustr = "nat list"

definition u :: "string \<Rightarrow> ustr" where
  "u s = map of_char s"

text \<open>The exceptions the modelled code can raise.\<close>

datatype exn =
  KeyError | IndexError | ValueError | TypeError | AttributeError
  | OverflowError | RuntimeError

text \<open>
  A Python \<open>float\<close>: a finite double, given by the rational number it denotes (both
  zeros are \<open>Fin 0\<close>), an infinity, or NaN. \<open>float_lt\<close> is the operator \<open><\<close>.
\<close>

datatype pyfloat = Fin rat | PInf | NInf | NaN

fun float_lt :: "pyfloat \<Rightarrow> pyfloat \<Rightarrow> bool" where
  "float_lt NaN y = False"
| "float_lt x NaN = False"
| "float_lt (Fin a) (Fin b) = (a < b)"
| "float_lt (Fin a) PInf = True"
| "float_lt (Fin a) NInf = False"
| "float_lt PInf y = False"
| "float_lt NInf NInf = False"
| "float_lt NInf y = True"

text \<open>
  The argument of a call \<open>float(v)\<close>, as far as the call can tell values apart: a value
  the call converts, with the float it yields, or a value it rejects, with the exception
  it raises (ValueError for a string that is no number, TypeError for a value that is
  neither a string nor a number, OverflowError for an integer beyond the doubles).
\<close>

datatype floatarg = Parses pyfloat | NoParse exn

fun py_float :: "floatarg \<Rightarrow> exn + pyfloat" where
  "py_float (Parses x) = Inr x"
| "py_float (NoParse e) = Inl e"

text \<open>
  \<open>str.isspace\<close> for one code point, and \<open>str.strip()\<close>: white space is removed at
  both ends.
\<close>

definition isspace :: "nat \<Rightarrow> bool" where
  "isspace c \<longleftrightarrow>
     (9 \<le> c \<and> c \<le> 13) \<or> (28 \<le> c \<and> c \<le> 32) \<or> c = 133 \<or> c = 160 \<or> c = 5760
     \<or> (8192 \<le> c \<and> c \<le> 8202) \<or> c = 8232 \<or> c = 8233 \<or> c = 8239 \<or> c = 8287
     \<or> c = 12288"

definition py_strip :: "ustr \<Rightarrow> ustr" where
  "py_strip s = rev (dropWhile isspace (rev (dropWhile isspace s)))"

text \<open>\<open>sep.join(words)\<close>.\<close>

fun py_join :: "ustr \<Rightarrow> ustr list \<Rightarrow> ustr" where
  "py_join sep [] = []"
| "py_join sep [w] = w"
| "py_join sep (w # v # ws) = w @ sep @ py_join sep (v # ws)"

section \<open>The transcription artifact\<close>

text \<open>
  The dictionaries of the transcript as records. A key the code reads with \<open>.get\<close> or
  tests with \<open>in\<close> is an optional field; every key the code does not name is kept in
  the record's extension, so that a segment, the results and the document can carry
  further entries.
\<close>

record alternative =
  confidence :: "floatarg option"
  content :: ustr

record item =
  item_id :: int
  item_type :: ustr
  alternatives :: "alternative list"

record segment =
  seg_items :: "int list"
  transcript :: "ustr option"
  seg_alternatives :: "alternative list option"
  start_time :: "floatarg option"
  end_time :: "floatarg option"

record 's results =
  items :: "item list option"
  audio_segments :: "'s list option"
  audio :: "'s list option"

record ('s, 'r) transcript_data =
  results :: "('s, 'r) results_scheme"

section \<open>filter_low_confidence_items_and_segments\<close>

text \<open>
  \<open>float(item["alternatives"][0].get("confidence", "1.0"))\<close>, for the first alternative:
  the default \<open>"1.0"\<close> converts to the double 1.
\<close>

definition confidence_of :: "alternative \<Rightarrow> exn + pyfloat" where
  "confidence_of a =
     py_float (case confidence a of None \<Rightarrow> Parses (Fin 1) | Some c \<Rightarrow> c)"

text \<open>Step 1 (lines 21 to 26): the ids of the pronunciation items below the threshold.\<close>

fun low_confidence_ids :: "pyfloat \<Rightarrow> item list \<Rightarrow> exn + int set" where
  "low_confidence_ids threshold [] = Inr {}"
| "low_confidence_ids threshold (it # its) =
     (if item_type it = u ''pronunciation'' then
        (case alternatives it of
           [] \<Rightarrow> Inl IndexError
         | a # _ \<Rightarrow>
            (case confidence_of a of
               Inl e \<Rightarrow> Inl e
             | Inr c \<Rightarrow>
                (case low_confidence_ids threshold its of
                   Inl e \<Rightarrow> Inl e
                 | Inr ids \<Rightarrow>
                     Inr (if float_lt c threshold then insert (item_id it) ids else ids))))
      else low_confidence_ids threshold its)"

text \<open>
  The inner loop of step 2 (lines 31 to 39) over the ids of one segment: an id that is
  not excluded is looked up with \<open>next((i for i in items if i["id"] == item_id), None)\<close>;
  when an item is found the id is kept and the content of its first alternative is the
  next word.
\<close>

fun retain :: "int set \<Rightarrow> item list \<Rightarrow> int list \<Rightarrow> exn + (int list \<times> ustr list)" where
  "retain low its [] = Inr ([], [])"
| "retain low its (i # ids) =
     (if i \<notin> low then
        (case find (\<lambda>it. item_id it = i) its of
           None \<Rightarrow> retain low its ids
         | Some matched_item \<Rightarrow>
            (case alternatives matched_item of
               [] \<Rightarrow> Inl IndexError
             | a # _ \<Rightarrow>
                (case retain low its ids of
                   Inl e \<Rightarrow> Inl e
                 | Inr (new_items, new_transcript_words) \<Rightarrow>
                     Inr (i # new_items, content a # new_transcript_words))))
      else retain low its ids)"

text \<open>
  The outer loop of step 2 (lines 30 to 47): a segment whose new transcript is not blank
  gets the new id list and the new transcript and is appended; any other segment is left
  out.
\<close>

fun cleaned_segments ::
  "int set \<Rightarrow> item list \<Rightarrow> 'a segment_scheme list \<Rightarrow> exn + 'a segment_scheme list" where
  "cleaned_segments low its [] = Inr []"
| "cleaned_segments low its (seg # segs) =
     (case retain low its (seg_items seg) of
        Inl e \<Rightarrow> Inl e
      | Inr (new_items, new_transcript_words) \<Rightarrow>
         (let new_transcript = py_join (u '' '') new_transcript_words in
          case cleaned_segments low its segs of
            Inl e \<Rightarrow> Inl e
          | Inr cleaned \<Rightarrow>
              Inr (if py_strip new_transcript \<noteq> []
                   then seg\<lparr>seg_items := new_items, transcript := Some new_transcript\<rparr> # cleaned
                   else cleaned)))"

definition filter_low_confidence_items_and_segments ::
  "('a segment_scheme, 'r, 'd) transcript_data_scheme \<Rightarrow> pyfloat
   \<Rightarrow> exn + ('a segment_scheme, 'r, 'd) transcript_data_scheme" where
  "filter_low_confidence_items_and_segments data threshold =
     (case items (results data) of
        None \<Rightarrow> Inl KeyError
      | Some its \<Rightarrow>
         (case audio_segments (results data) of
            None \<Rightarrow> Inl KeyError
          | Some segments \<Rightarrow>
             (case low_confidence_ids threshold its of
                Inl e \<Rightarrow> Inl e
              | Inr low \<Rightarrow>
                 (case cleaned_segments low its segments of
                    Inl e \<Rightarrow> Inl e
                  | Inr cleaned \<Rightarrow>
                      Inr (data\<lparr>results := (results data)\<lparr>audio_segments := Some cleaned\<rparr>\<rparr>)))))"

section \<open>Double-precision arithmetic\<close>

text \<open>
  Python floats are IEEE 754 doubles and each operation rounds its exact result to the
  nearest double, ties to even. \<open>rne\<close> rounds a rational to the nearest integer, ties to
  even; \<open>expo x\<close> is the binary exponent of \<open>x \<noteq> 0\<close>, the \<open>e\<close> with
  \<open>2\<^sup>e \<le> \<bar>x\<bar> < 2\<^sup>e\<^sup>+\<^sup>1\<close>; \<open>round_double\<close> rounds to 53 significant bits, and to
  multiples of \<open>2\<^sup>-\<^sup>1\<^sup>0\<^sup>7\<^sup>4\<close> in the subnormal range; \<open>double_of\<close> is the double an exact
  result becomes, an infinity when it is out of range.
\<close>

definition rne :: "rat \<Rightarrow> int" where
  "rne q =
     (let f = \<lfloor>q\<rfloor>; r = q - of_int f
      in if r < 1/2 then f else if 1/2 < r then f + 1 else if even f then f else f + 1)"

definition expo :: "rat \<Rightarrow> int" where
  "expo x =
     (let (a, b) = quotient_of \<bar>x\<bar>;
          e0 = int (floorlog 2 (nat a)) - int (floorlog 2 (nat b))
      in if 2 powi e0 \<le> \<bar>x\<bar> then e0 else e0 - 1)"

definition round_double :: "rat \<Rightarrow> rat" where
  "round_double x =
     (if x = 0 then 0
      else (let s = max (expo x) (- 1022) - 52
            in of_int (rne (x / 2 powi s)) * 2 powi s))"

definition double_of :: "rat \<Rightarrow> pyfloat" where
  "double_of x =
     (let y = round_double x
      in if 2 ^ 1024 \<le> y then PInf else if y \<le> - (2 ^ 1024) then NInf else Fin y)"

text \<open>The sign of a float that is not NaN.\<close>

fun float_sgn :: "pyfloat \<Rightarrow> int" where
  "float_sgn (Fin a) = (if a < 0 then - 1 else if a = 0 then 0 else 1)"
| "float_sgn PInf = 1"
| "float_sgn NInf = - 1"
| "float_sgn NaN = 0"

text \<open>\<open>x - y\<close> and \<open>x * y\<close> on floats.\<close>

fun float_sub :: "pyfloat \<Rightarrow> pyfloat \<Rightarrow> pyfloat" where
  "float_sub NaN y = NaN"
| "float_sub x NaN = NaN"
| "float_sub (Fin a) (Fin b) = double_of (a - b)"
| "float_sub (Fin a) PInf = NInf"
| "float_sub (Fin a) NInf = PInf"
| "float_sub PInf PInf = NaN"
| "float_sub PInf y = PInf"
| "float_sub NInf NInf = NaN"
| "float_sub NInf y = NInf"

fun float_mul :: "pyfloat \<Rightarrow> pyfloat \<Rightarrow> pyfloat" where
  "float_mul NaN y = NaN"
| "float_mul x NaN = NaN"
| "float_mul (Fin a) (Fin b) = double_of (a * b)"
| "float_mul x y =
     (let s = float_sgn x * float_sgn y
      in if s = 0 then NaN else if 0 < s then PInf else NInf)"

text \<open>\<open>int(x)\<close> on a float: truncation towards zero; an infinity and NaN are refused.\<close>

fun py_int :: "pyfloat \<Rightarrow> exn + int" where
  "py_int (Fin a) = Inr (if 0 \<le> a then \<lfloor>a\<rfloor> else \<lceil>a\<rceil>)"
| "py_int PInf = Inl OverflowError"
| "py_int NInf = Inl OverflowError"
| "py_int NaN = Inl ValueError"

section \<open>lambda_handler\<close>

text \<open>The literal \<open>5.68\<close>: the double nearest to 568/100.\<close>

definition speech_rate :: rat where
  "speech_rate = round_double (568/100)"

text \<open>Line 94, \<open>int((end_time - start_time) * 5.68)\<close>.\<close>

definition max_translated_characters :: "pyfloat \<Rightarrow> pyfloat \<Rightarrow> exn + int" where
  "max_translated_characters start_t end_t =
     py_int (float_mul (float_sub end_t start_t) (Fin speech_rate))"

text \<open>
  The body of a response, as \<open>json.loads\<close> returns it. A dictionary is the list of its
  entries, each key once.
\<close>

datatype json =
  JNull | JBool bool | JNum rat | JStr ustr | JArr "json list" | JObj "(ustr \<times> json) list"

text \<open>
  What \<open>bedrock_runtime.invoke_model\<close> and the reading of its body come to: an exception
  (of the request, of \<open>read\<close>, \<open>decode\<close> or \<open>json.loads\<close>), or the parsed body.
\<close>

datatype invoke_result = Raises | Body json

text \<open>The operations of lines 168 to 176 on a value of any shape.\<close>

fun py_contains :: "ustr \<Rightarrow> json \<Rightarrow> exn + bool" where
  "py_contains k (JObj kvs) = Inr (k \<in> set (map fst kvs))"
| "py_contains k (JArr xs) = Inr (JStr k \<in> set xs)"
| "py_contains k (JStr s) = Inr (sublist k s)"
| "py_contains k v = Inl TypeError"

fun py_get :: "json \<Rightarrow> ustr \<Rightarrow> json \<Rightarrow> exn + json" where
  "py_get (JObj kvs) k dflt = Inr (case map_of kvs k of None \<Rightarrow> dflt | Some v \<Rightarrow> v)"
| "py_get v k dflt = Inl AttributeError"

fun truthy :: "json \<Rightarrow> bool" where
  "truthy JNull = False"
| "truthy (JBool b) = b"
| "truthy (JNum r) = (r \<noteq> 0)"
| "truthy (JStr s) = (s \<noteq> [])"
| "truthy (JArr xs) = (xs \<noteq> [])"
| "truthy (JObj kvs) = (kvs \<noteq> [])"

fun py_first :: "json \<Rightarrow> exn + json" where
  "py_first (JArr []) = Inl IndexError"
| "py_first (JArr (x # xs)) = Inr x"
| "py_first (JStr []) = Inl IndexError"
| "py_first (JStr (c # cs)) = Inr (JStr [c])"
| "py_first (JObj kvs) = Inl KeyError"
| "py_first v = Inl TypeError"

fun py_getitem :: "json \<Rightarrow> ustr \<Rightarrow> exn + json" where
  "py_getitem (JObj kvs) k = (case map_of kvs k of None \<Rightarrow> Inl KeyError | Some v \<Rightarrow> Inr v)"
| "py_getitem v k = Inl TypeError"

fun str_strip :: "json \<Rightarrow> exn + ustr" where
  "str_strip (JStr s) = Inr (py_strip s)"
| "str_strip v = Inl AttributeError"

text \<open>
  Lines 168 to 176: the text of the first content block, stripped. Line 169 formats the
  message with \<open>response_body['error'].get('message', 'No message')\<close> before it raises
  RuntimeError: the lookup raises TypeError on a list or a string, and \<open>.get\<close> raises
  AttributeError on an error entry that is no dictionary.
\<close>

definition response_text :: "json \<Rightarrow> exn + ustr" where
  "response_text response_body =
     (case py_contains (u ''error'') response_body of
        Inl e \<Rightarrow> Inl e
      | Inr True \<Rightarrow>
         (case py_getitem response_body (u ''error'') of
            Inl e \<Rightarrow> Inl e
          | Inr (JObj err) \<Rightarrow> Inl RuntimeError
          | Inr v \<Rightarrow> Inl AttributeError)
      | Inr False \<Rightarrow>
         (case py_get response_body (u ''content'') (JArr []) of
            Inl e \<Rightarrow> Inl e
          | Inr content_blocks \<Rightarrow>
             (if \<not> truthy content_blocks then Inl ValueError
              else (case py_first content_blocks of
                      Inl e \<Rightarrow> Inl e
                    | Inr block \<Rightarrow>
                       (case py_contains (u ''text'') block of
                          Inl e \<Rightarrow> Inl e
                        | Inr False \<Rightarrow> Inl ValueError
                        | Inr True \<Rightarrow>
                           (case py_getitem block (u ''text'') of
                              Inl e \<Rightarrow> Inl e
                            | Inr t \<Rightarrow> str_strip t))))))"

definition placeholder :: ustr where
  "placeholder = [12288]"

definition error_tag :: ustr where
  "error_tag = u ''[TRANSLATION_ERROR] ''"

definition filler_list :: "ustr list" where
  "filler_list =
     map u [''um'', ''uh'', ''so'', ''well'', ''you know'', ''i mean'',
            ''uh,'', ''um,'', ''so,'', ''well,'', ''you know,'', ''i mean,'']"

text \<open>
  The handler of \<open>except Exception\<close> (lines 186 to 191). \<open>lower\<close> is \<open>str.lower\<close>, which
  follows the Unicode character database; it is a parameter of the model.
\<close>

definition fallback_text :: "(ustr \<Rightarrow> ustr) \<Rightarrow> ustr \<Rightarrow> ustr" where
  "fallback_text lower english_text =
     (if lower (py_strip english_text) \<in> set filler_list then placeholder
      else error_tag @ english_text)"

text \<open>The \<open>try\<close> statement (lines 139 to 191), given what the request came to.\<close>

definition translated_text :: "(ustr \<Rightarrow> ustr) \<Rightarrow> invoke_result \<Rightarrow> ustr \<Rightarrow> ustr" where
  "translated_text lower outcome english_text =
     (case outcome of
        Raises \<Rightarrow> fallback_text lower english_text
      | Body response_body \<Rightarrow>
         (case response_text response_body of
            Inl e \<Rightarrow> fallback_text lower english_text
          | Inr t \<Rightarrow> if t = [] then placeholder else t))"

text \<open>Lines 99 to 105: the English text of an entry, or none, and the entry is skipped.\<close>

definition english_text_of :: "'a segment_scheme \<Rightarrow> ustr option" where
  "english_text_of entry =
     (case transcript entry of
        Some t \<Rightarrow> Some t
      | None \<Rightarrow>
         (case seg_alternatives entry of
            Some (a # _) \<Rightarrow> Some (content a)
          | _ \<Rightarrow> None))"

text \<open>\<open>float(item.get(key, 0))\<close>.\<close>

definition time_of :: "floatarg option \<Rightarrow> exn + pyfloat" where
  "time_of field = py_float (case field of None \<Rightarrow> Parses (Fin 0) | Some v \<Rightarrow> v)"

record subtitle =
  sub_start_time :: pyfloat
  sub_end_time :: pyfloat
  sub_text :: ustr
  ja_text :: ustr

text \<open>
  The request: the prompt is made of the character budget and the English text. The
  translation service is a function of the request and of the state of the world, which
  it may change.
\<close>

record request =
  budget :: int
  english :: ustr

text \<open>
  The loop of lines 91 to 198. An exception outside the \<open>try\<close> statement ends the
  handler; one inside it is handled, and the subtitle is appended either way.
\<close>

fun translate_segments ::
  "(ustr \<Rightarrow> ustr) \<Rightarrow> ('w \<Rightarrow> request \<Rightarrow> invoke_result \<times> 'w) \<Rightarrow> 'w
   \<Rightarrow> 'a segment_scheme list \<Rightarrow> exn + subtitle list" where
  "translate_segments lower bedrock w [] = Inr []"
| "translate_segments lower bedrock w (entry # entries) =
     (case time_of (start_time entry) of
        Inl e \<Rightarrow> Inl e
      | Inr start_t \<Rightarrow>
         (case time_of (end_time entry) of
            Inl e \<Rightarrow> Inl e
          | Inr end_t \<Rightarrow>
             (case max_translated_characters start_t end_t of
                Inl e \<Rightarrow> Inl e
              | Inr n \<Rightarrow>
                 (case english_text_of entry of
                    None \<Rightarrow> translate_segments lower bedrock w entries
                  | Some english_text \<Rightarrow>
                     (case bedrock w \<lparr>budget = n, english = english_text\<rparr> of
                        (outcome, w') \<Rightarrow>
                          (case translate_segments lower bedrock w' entries of
                             Inl e \<Rightarrow> Inl e
                           | Inr subtitles \<Rightarrow>
                               Inr (\<lparr>sub_start_time = start_t, sub_end_time = end_t,
                                     sub_text = english_text,
                                     ja_text =
                                       (let t = translated_text lower outcome english_text
                                        in if t \<noteq> [] then t else [])\<rparr>
                                    # subtitles)))))))"

text \<open>Lines 80 to 86: the entries to translate.\<close>

definition segments_to_translate ::
  "('a segment_scheme, 'r) results_scheme \<Rightarrow> exn + 'a segment_scheme list" where
  "segments_to_translate res =
     (case audio_segments res of
        Some segs \<Rightarrow> Inr segs
      | None \<Rightarrow>
         (case items res of
            Some its \<Rightarrow> (case audio res of None \<Rightarrow> Inl KeyError | Some a \<Rightarrow> Inr a)
          | None \<Rightarrow> Inl ValueError))"

text \<open>
  The handler, from the transcript that \<open>json.load\<close> returned to the subtitles it writes.
  The threshold 0.25 is a double.
\<close>

definition lambda_handler ::
  "(ustr \<Rightarrow> ustr) \<Rightarrow> ('w \<Rightarrow> request \<Rightarrow> invoke_result \<times> 'w) \<Rightarrow> 'w
   \<Rightarrow> ('a segment_scheme, 'r, 'd) transcript_data_scheme \<Rightarrow> exn + subtitle list" where
  "lambda_handler lower bedrock w transcript_data =
     (case filter_low_confidence_items_and_segments transcript_data (Fin (1/4)) of
        Inl e \<Rightarrow> Inl e
      | Inr filtered \<Rightarrow>
         (case segments_to_translate (results filtered) of
            Inl e \<Rightarrow> Inl e
          | Inr entries \<Rightarrow> translate_segments lower bedrock w entries))"

subsection \<open>The filter as the specification words it\<close>

text \<open>
  An item is below the threshold when the confidence of its first alternative, or 1.0
  when that alternative has none, is less than the threshold.
\<close>

definition below_threshold :: "pyfloat \<Rightarrow> item \<Rightarrow> bool" where
  "below_threshold threshold it =
     (case alternatives it of
        [] \<Rightarrow> False
      | a # _ \<Rightarrow>
         (case confidence a of
            None \<Rightarrow> float_lt (Fin 1) threshold
          | Some (NoParse e) \<Rightarrow> False
          | Some (Parses c) \<Rightarrow> float_lt c threshold))"

definition excluded_ids :: "pyfloat \<Rightarrow> item list \<Rightarrow> int set" where
  "excluded_ids threshold its =
     item_id ` {it \<in> set its. item_type it = u ''pronunciation'' \<and> below_threshold threshold it}"

text \<open>An item the first step can read: a pronunciation item needs a first alternative
  whose confidence, when present, converts to a float.\<close>

definition readable_item :: "item \<Rightarrow> bool" where
  "readable_item it =
     (if item_type it = u ''pronunciation''
      then (case alternatives it of
              [] \<Rightarrow> False
            | a # _ \<Rightarrow> (case confidence a of Some (NoParse e) \<Rightarrow> False | _ \<Rightarrow> True))
      else True)"

text \<open>
  The reconstruction of one segment in the words of the specification: the retained ids
  are the ids that are not excluded and that some item carries; the word of an id is the
  content of the first alternative of the first item with that id.
\<close>

definition resolves :: "item list \<Rightarrow> int \<Rightarrow> bool" where
  "resolves its i \<longleftrightarrow> find (\<lambda>it. item_id it = i) its \<noteq> None"

definition retained_ids :: "int set \<Rightarrow> item list \<Rightarrow> int list \<Rightarrow> int list" where
  "retained_ids low its ids = filter (\<lambda>i. i \<notin> low \<and> resolves its i) ids"

definition resolves_to :: "item list \<Rightarrow> int \<Rightarrow> ustr \<Rightarrow> bool" where
  "resolves_to its i w =
     (case find (\<lambda>it. item_id it = i) its of
        None \<Rightarrow> False
      | Some m \<Rightarrow> (case alternatives m of [] \<Rightarrow> False | a # _ \<Rightarrow> w = content a))"

text \<open>
  The word of an id as a function. An id that no item carries, or whose item has no
  alternative, has no word; the empty string stands in, and no retained id of a run that
  returns is of that kind.
\<close>

definition word_of :: "item list \<Rightarrow> int \<Rightarrow> ustr" where
  "word_of its i =
     (case find (\<lambda>it. item_id it = i) its of
        None \<Rightarrow> []
      | Some m \<Rightarrow> (case alternatives m of [] \<Rightarrow> [] | a # _ \<Rightarrow> content a))"

definition rebuilt_transcript :: "int set \<Rightarrow> item list \<Rightarrow> int list \<Rightarrow> ustr" where
  "rebuilt_transcript low its ids =
     py_join (u '' '') (map (word_of its) (retained_ids low its ids))"

definition blank :: "ustr \<Rightarrow> bool" where
  "blank s \<longleftrightarrow> py_strip s = []"

definition survives :: "int set \<Rightarrow> item list \<Rightarrow> 'a segment_scheme \<Rightarrow> bool" where
  "survives low its seg \<longleftrightarrow> \<not> blank (rebuilt_transcript low its (seg_items seg))"

definition rebuild :: "int set \<Rightarrow> item list \<Rightarrow> 'a segment_scheme \<Rightarrow> 'a segment_scheme" where
  "rebuild low its seg =
     seg\<lparr>seg_items := retained_ids low its (seg_items seg),
         transcript := Some (rebuilt_transcript low its (seg_items seg))\<rparr>"

subsection \<open>The transcript of the end-to-end scenario\<close>

definition scenario_items :: "item list" where
  "scenario_items =
     [\<lparr>item_id = 1, item_type = u ''pronunciation'',
       alternatives = [\<lparr>confidence = Some (Parses (Fin (9/10))), content = u ''Hello''\<rparr>]\<rparr>,
      \<lparr>item_id = 2, item_type = u ''pronunciation'',
       alternatives = [\<lparr>confidence = Some (Parses (Fin (1/10))), content = u ''ignored''\<rparr>]\<rparr>,
      \<lparr>item_id = 3, item_type = u ''pronunciation'',
       alternatives = [\<lparr>confidence = Some (Parses (Fin (9/10))), content = u ''Goodbye''\<rparr>]\<rparr>,
      \<lparr>item_id = 4, item_type = u ''punctuation'',
       alternatives = [\<lparr>confidence = Some (Parses (Fin 0)), content = u ''.''\<rparr>]\<rparr>,
      \<lparr>item_id = 5, item_type = u ''pronunciation'',
       alternatives = [\<lparr>confidence = None, content = u ''um''\<rparr>]\<rparr>]"

definition scenario_segments :: "segment list" where
  "scenario_segments =
     [\<lparr>seg_items = [1, 2], transcript = Some (u ''Hello ignored''), seg_alternatives = None,
       start_time = Some (Parses (Fin 0)), end_time = Some (Parses (Fin 2))\<rparr>,
      \<lparr>seg_items = [2, 99], transcript = Some (u ''ignored''), seg_alternatives = None,
       start_time = Some (Parses (Fin 2)), end_time = Some (Parses (Fin 2))\<rparr>,
      \<lparr>seg_items = [3, 4], transcript = Some (u ''Goodbye.''), seg_alternatives = None,
       start_time = Some (Parses (Fin 2)), end_time = Some (Parses (Fin 4))\<rparr>]"

definition scenario_cleaned :: "segment list" where
  "scenario_cleaned =
     [\<lparr>seg_items = [1], transcript = Some (u ''Hello''), seg_alternatives = None,
       start_time = Some (Parses (Fin 0)), end_time = Some (Parses (Fin 2))\<rparr>,
      \<lparr>seg_items = [3, 4], transcript = Some (u ''Goodbye .''), seg_alternatives = None,
       start_time = Some (Parses (Fin 2)), end_time = Some (Parses (Fin 4))\<rparr>]"

definition scenario_data :: "(segment, unit, unit) transcript_data_scheme" where
  "scenario_data =
     \<lparr>results = \<lparr>items = Some scenario_items, audio_segments = Some scenario_segments,
                 audio = None\<rparr>\<rparr>"

definition scenario_filtered :: "(segment, unit, unit) transcript_data_scheme" where
  "scenario_filtered =
     \<lparr>results = \<lparr>items = Some scenario_items, audio_segments = Some scenario_cleaned,
                 audio = None\<rparr>\<rparr>"

subsection \<open>The translation outcomes as the specification words them\<close>






subsection \<open>A translation service for the scenario\<close>

text \<open>\<open>str.lower\<close> on ASCII text.\<close>

definition ascii_lower :: "ustr \<Rightarrow> ustr" where
  "ascii_lower s = map (\<lambda>c. if 65 \<le> c \<and> c \<le> 90 then c + 32 else c) s"

text \<open>
  The state of the world counts the requests. The first request is answered with a
  translation, every later one with an error-shaped body.
\<close>

definition scenario_bedrock :: "nat \<Rightarrow> request \<Rightarrow> invoke_result \<times> nat" where
  "scenario_bedrock w req =
     (if w = 0
      then Body (JObj [(u ''content'',
                        JArr [JObj [(u ''type'', JStr (u ''text'')),
                                    (u ''text'', JStr [32, 12371, 12435, 12395, 12385, 12399, 10])]])])
      else Body (JObj [(u ''error'', JObj [(u ''message'', JStr (u ''throttled''))])]),
      Suc w)"

definition scenario_subtitles :: "subtitle list" where
  "scenario_subtitles =
     [\<lparr>sub_start_time = Fin 0, sub_end_time = Fin 2, sub_text = u ''Hello'',
       ja_text = [12371, 12435, 12395, 12385, 12399]\<rparr>,
      \<lparr>sub_start_time = Fin 2, sub_end_time = Fin 4, sub_text = u ''Goodbye .'',
       ja_text = u ''[TRANSLATION_ERROR] Goodbye .''\<rparr>]"

text \<open>
  A transcript in which no segment refers to a pronunciation item below the threshold
  0.25: a word followed by a comma, and a segment without items.
\<close>

definition punctuated_items :: "item list" where
  "punctuated_items =
     [\<lparr>item_id = 1, item_type = u ''pronunciation'',
       alternatives = [\<lparr>confidence = Some (Parses (Fin (9/10))), content = u ''Hello''\<rparr>]\<rparr>,
      \<lparr>item_id = 2, item_type = u ''punctuation'',
       alternatives = [\<lparr>confidence = Some (Parses (Fin 0)), content = u '',''\<rparr>]\<rparr>]"

definition punctuated_data :: "(segment, unit, unit) transcript_data_scheme" where
  "punctuated_data =
     \<lparr>results = \<lparr>items = Some punctuated_items,
        audio_segments = Some
          [\<lparr>seg_items = [1, 2], transcript = Some (u ''Hello,''), seg_alternatives = None,
            start_time = Some (Parses (Fin 0)), end_time = Some (Parses (Fin 2))\<rparr>,
           \<lparr>seg_items = [], transcript = Some [], seg_alternatives = None,
            start_time = Some (Parses (Fin 2)), end_time = Some (Parses (Fin 3))\<rparr>],
        audio = None\<rparr>\<rparr>"

definition punctuated_filtered :: "(segment, unit, unit) transcript_data_scheme" where
  "punctuated_filtered =
     \<lparr>results = \<lparr>items = Some punctuated_items,
        audio_segments = Some
          [\<lparr>seg_items = [1, 2], transcript = Some (u ''Hello ,''), seg_alternatives = None,
            start_time = Some (Parses (Fin 0)), end_time = Some (Parses (Fin 2))\<rparr>],
        audio = None\<rparr>\<rparr>"

text \<open>A transcript without \<open>audio_segments\<close>, with items only.\<close>

definition items_only_data :: "(segment, unit, unit) transcript_data_scheme" where
  "items_only_data =
     \<lparr>results = \<lparr>items = Some scenario_items, audio_segments = None, audio = None\<rparr>\<rparr>"

section \<open>The confidence filter\<close>

lemma low_confidence_ids_excluded:
  "low_confidence_ids threshold its = Inr ids \<Longrightarrow> ids = excluded_ids threshold its"
proof (induction its arbitrary: ids)
  case Nil
  then show ?case by (simp add: excluded_ids_def)
next
  case (Cons it its)
  show ?case
  proof (cases "item_type it = u ''pronunciation''")
    case False
    with Cons.prems have "low_confidence_ids threshold its = Inr ids" by simp
    then have "ids = excluded_ids threshold its" by (rule Cons.IH)
    with False show ?thesis by (auto simp: excluded_ids_def)
  next
    case True
    with Cons.prems obtain a rest c ids' where
      alts: "alternatives it = a # rest" and
      conf: "confidence_of a = Inr c" and
      tl: "low_confidence_ids threshold its = Inr ids'" and
      ids: "ids = (if float_lt c threshold then insert (item_id it) ids' else ids')"
      by (auto split: list.splits sum.splits)
    have ih: "ids' = excluded_ids threshold its" using tl by (rule Cons.IH)
    have "below_threshold threshold it = float_lt c threshold"
      using alts conf
      by (cases "confidence a")
         (auto simp: below_threshold_def confidence_of_def split: floatarg.splits)
    with True ids ih show ?thesis by (auto simp: excluded_ids_def)
  qed
qed

lemma low_confidence_ids_total:
  "list_all readable_item its \<Longrightarrow> \<exists>ids. low_confidence_ids threshold its = Inr ids"
proof (induction its)
  case Nil
  then show ?case by simp
next
  case (Cons it its)
  then obtain ids where tl: "low_confidence_ids threshold its = Inr ids" by auto
  from Cons.prems have r: "readable_item it" by simp
  show ?case
  proof (cases "item_type it = u ''pronunciation''")
    case False
    with tl show ?thesis by simp
  next
    case True
    with r obtain a rest where alts: "alternatives it = a # rest"
      and c: "\<forall>e. confidence a \<noteq> Some (NoParse e)"
      by (auto simp: readable_item_def split: list.splits option.splits floatarg.splits)
    from c obtain x where "confidence_of a = Inr x"
      by (cases "confidence a"; cases "the (confidence a)")
         (auto simp: confidence_of_def)
    with True alts tl show ?thesis by simp
  qed
qed




section \<open>Segment reconstruction\<close>

lemma retain_spec:
  "retain low its ids = Inr (ns, ws) \<Longrightarrow>
     ns = retained_ids low its ids \<and> ws = map (word_of its) ns
     \<and> list_all2 (resolves_to its) ns ws"
proof (induction ids arbitrary: ns ws)
  case Nil
  then show ?case by (simp add: retained_ids_def)
next
  case (Cons i ids)
  show ?case
  proof (cases "i \<notin> low \<and> resolves its i")
    case False
    with Cons.prems have "retain low its ids = Inr (ns, ws)"
      by (auto simp: resolves_def split: if_splits)
    from Cons.IH [OF this] have ih:
      "ns = retained_ids low its ids \<and> ws = map (word_of its) ns
       \<and> list_all2 (resolves_to its) ns ws" .
    have eq: "retained_ids low its (i # ids) = retained_ids low its ids"
      using False by (simp add: retained_ids_def)
    from ih show ?thesis unfolding eq .
  next
    case True
    then obtain m where m: "find (\<lambda>it. item_id it = i) its = Some m"
      by (auto simp: resolves_def)
    with True Cons.prems obtain a rest ns' ws' where
      alts: "alternatives m = a # rest" and
      tl: "retain low its ids = Inr (ns', ws')" and
      ns: "ns = i # ns'" and ws: "ws = content a # ws'"
      by (auto split: list.splits sum.splits)
    from Cons.IH [OF tl] have
      ih1: "ns' = retained_ids low its ids" and
      ih2: "ws' = map (word_of its) ns'" and
      ih3: "list_all2 (resolves_to its) ns' ws'"
      by blast+
    have eq: "retained_ids low its (i # ids) = i # retained_ids low its ids"
      using True by (simp add: retained_ids_def)
    have w: "word_of its i = content a" "resolves_to its i (content a)"
      using m alts by (simp_all add: word_of_def resolves_to_def)
    have "i # ns' = retained_ids low its (i # ids)"
      using ih1 eq by simp
    moreover have "content a # ws' = map (word_of its) (i # ns')"
      using ih2 w by simp
    moreover have "list_all2 (resolves_to its) (i # ns') (content a # ws')"
      using ih3 w by simp
    ultimately show ?thesis unfolding ns ws by blast
  qed
qed

lemma retain_idem:
  "retain low its ids = Inr (ns, ws) \<Longrightarrow> retain low its ns = Inr (ns, ws)"
proof (induction ids arbitrary: ns ws)
  case Nil
  then show ?case by simp
next
  case (Cons i ids)
  show ?case
  proof (cases "i \<notin> low \<and> resolves its i")
    case False
    with Cons.prems have "retain low its ids = Inr (ns, ws)"
      by (auto simp: resolves_def split: if_splits)
    then show ?thesis by (rule Cons.IH)
  next
    case True
    then obtain m where m: "find (\<lambda>it. item_id it = i) its = Some m"
      by (auto simp: resolves_def)
    with True Cons.prems obtain a rest ns' ws' where
      alts: "alternatives m = a # rest" and
      tl: "retain low its ids = Inr (ns', ws')" and
      ns: "ns = i # ns'" and ws: "ws = content a # ws'"
      by (auto split: list.splits sum.splits)
    from Cons.IH [OF tl] True m alts ns ws show ?thesis
      by simp
  qed
qed

lemma retain_total:
  "list_all (\<lambda>it. alternatives it \<noteq> []) its \<Longrightarrow> \<exists>ns ws. retain low its ids = Inr (ns, ws)"
proof (induction ids)
  case Nil
  then show ?case by simp
next
  case (Cons i ids)
  then obtain ns ws where tl: "retain low its ids = Inr (ns, ws)" by blast
  show ?case
  proof (cases "find (\<lambda>it. item_id it = i) its")
    case None
    with tl show ?thesis by simp
  next
    case (Some m)
    then have "m \<in> set its" by (auto simp: find_Some_iff)
    with Cons.prems have "alternatives m \<noteq> []" by (simp add: list_all_iff)
    then obtain a rest where "alternatives m = a # rest" by (cases "alternatives m") auto
    with Some tl show ?thesis by simp
  qed
qed

lemma cleaned_segments_spec:
  "cleaned_segments low its segs = Inr cs \<Longrightarrow>
     cs = map (rebuild low its) (filter (survives low its) segs)"
proof (induction segs arbitrary: cs)
  case Nil
  then show ?case by simp
next
  case (Cons seg segs)
  from Cons.prems obtain ns ws cs' where
    r: "retain low its (seg_items seg) = Inr (ns, ws)" and
    tl: "cleaned_segments low its segs = Inr cs'" and
    cs: "cs = (if py_strip (py_join (u '' '') ws) \<noteq> []
               then seg\<lparr>seg_items := ns, transcript := Some (py_join (u '' '') ws)\<rparr> # cs'
               else cs')"
    by (auto simp: Let_def split: sum.splits)
  from retain_spec [OF r] have
    ns: "ns = retained_ids low its (seg_items seg)" and
    t: "py_join (u '' '') ws = rebuilt_transcript low its (seg_items seg)"
    by (simp_all add: rebuilt_transcript_def)
  from Cons.IH [OF tl] cs ns t show ?case
    by (simp add: survives_def blank_def rebuild_def)
qed

lemma cleaned_segments_idem:
  "cleaned_segments low its segs = Inr cs \<Longrightarrow> cleaned_segments low its cs = Inr cs"
proof (induction segs arbitrary: cs)
  case Nil
  then show ?case by simp
next
  case (Cons seg segs)
  from Cons.prems obtain ns ws cs' where
    r: "retain low its (seg_items seg) = Inr (ns, ws)" and
    tl: "cleaned_segments low its segs = Inr cs'" and
    cs: "cs = (if py_strip (py_join (u '' '') ws) \<noteq> []
               then seg\<lparr>seg_items := ns, transcript := Some (py_join (u '' '') ws)\<rparr> # cs'
               else cs')"
    by (auto simp: Let_def split: sum.splits)
  from retain_idem [OF r] Cons.IH [OF tl] cs show ?case
    by simp
qed

lemma cleaned_segments_total:
  "list_all (\<lambda>it. alternatives it \<noteq> []) its \<Longrightarrow> \<exists>cs. cleaned_segments low its segs = Inr cs"
proof (induction segs)
  case Nil
  then show ?case by simp
next
  case (Cons seg segs)
  then obtain cs where tl: "cleaned_segments low its segs = Inr cs" by blast
  from retain_total [OF Cons.prems] obtain ns ws where
    "retain low its (seg_items seg) = Inr (ns, ws)" by blast
  with tl show ?case by (simp add: Let_def)
qed

lemma filter_returns:
  assumes "filter_low_confidence_items_and_segments data threshold = Inr data'"
  obtains its segs low cs where
    "items (results data) = Some its" "audio_segments (results data) = Some segs"
    "low_confidence_ids threshold its = Inr low"
    "cleaned_segments low its segs = Inr cs"
    "data' = data\<lparr>results := (results data)\<lparr>audio_segments := Some cs\<rparr>\<rparr>"
  using assms
  by (auto simp: filter_low_confidence_items_and_segments_def
           split: option.splits sum.splits)

lemma cleaned_segments_retain:
  "cleaned_segments low its segs = Inr cs \<Longrightarrow> seg \<in> set segs \<Longrightarrow>
     \<exists>ns ws. retain low its (seg_items seg) = Inr (ns, ws)"
proof (induction segs arbitrary: cs)
  case Nil
  then show ?case by simp
next
  case (Cons s segs)
  from Cons.prems(1) obtain ns ws cs' where
    r: "retain low its (seg_items s) = Inr (ns, ws)" and
    tl: "cleaned_segments low its segs = Inr cs'"
    by (auto simp: Let_def split: sum.splits)
  show ?case
  proof (cases "seg = s")
    case True
    with r show ?thesis by blast
  next
    case False
    with Cons.prems(2) have "seg \<in> set segs" by simp
    with tl show ?thesis by (rule Cons.IH)
  qed
qed

lemma filter_total:
  assumes "items (results data) = Some its" "audio_segments (results data) = Some segs"
    and "list_all readable_item its" "list_all (\<lambda>it. alternatives it \<noteq> []) its"
  shows "\<exists>data'. filter_low_confidence_items_and_segments data threshold = Inr data'"
proof -
  from low_confidence_ids_total [OF assms(3)] obtain low where
    l: "low_confidence_ids threshold its = Inr low" by blast
  from cleaned_segments_total [OF assms(4)] obtain cs where
    c: "cleaned_segments low its segs = Inr cs" by blast
  from assms(1,2) l c show ?thesis
    by (simp add: filter_low_confidence_items_and_segments_def)
qed

subsection \<open>The scenario, run\<close>

lemma scenario_low:
  "low_confidence_ids (Fin (1/4)) scenario_items = Inr {2}"
  by (simp add: scenario_items_def confidence_of_def u_def)

lemma scenario_cleaned_run:
  "cleaned_segments {2} scenario_items scenario_segments = Inr scenario_cleaned"
  by (simp add: scenario_items_def scenario_segments_def scenario_cleaned_def
        py_strip_def isspace_def u_def)

lemma scenario_filter_run:
  "filter_low_confidence_items_and_segments scenario_data (Fin (1/4)) = Inr scenario_filtered"
  by (simp add: filter_low_confidence_items_and_segments_def scenario_data_def
        scenario_filtered_def scenario_low scenario_cleaned_run)

lemma scenario_fields:
  "items (results scenario_data) = Some scenario_items"
  "audio_segments (results scenario_data) = Some scenario_segments"
  by (simp_all add: scenario_data_def)

text \<open>
  C2. When the filter returns, the new segment list is made of the surviving segments in
  their order. Each new segment lists exactly the ids of the original list that are not
  excluded and that some item carries (an id that no item carries is skipped), in the
  original order, and its transcript is the contents of the items that these ids resolve
  to, joined with single spaces.
\<close>

theorem reconstruction_retains:
  assumes "filter_low_confidence_items_and_segments data threshold = Inr data'"
    and "items (results data) = Some its"
    and "audio_segments (results data) = Some segs"
  shows "\<exists>cs. audio_segments (results data') = Some cs
          \<and> list_all2
               (\<lambda>seg' seg.
                  seg_items seg' =
                    filter (\<lambda>i. i \<notin> excluded_ids threshold its \<and> resolves its i) (seg_items seg)
                  \<and> (\<exists>ws. list_all2 (resolves_to its) (seg_items seg') ws
                           \<and> transcript seg' = Some (py_join (u '' '') ws)))
               cs (filter (survives (excluded_ids threshold its) its) segs)"
proof -
  from assms(1) obtain its0 segs0 low cs where
    i: "items (results data) = Some its0" and
    s: "audio_segments (results data) = Some segs0" and
    l: "low_confidence_ids threshold its0 = Inr low" and
    c: "cleaned_segments low its0 segs0 = Inr cs" and
    d: "data' = data\<lparr>results := (results data)\<lparr>audio_segments := Some cs\<rparr>\<rparr>"
    by (rule filter_returns)
  from i s assms(2,3) have e: "its0 = its" "segs0 = segs" by simp_all
  have low: "low = excluded_ids threshold its"
    using low_confidence_ids_excluded [OF l] e by simp
  have cs: "cs = map (rebuild low its) (filter (survives low its) segs)"
    using cleaned_segments_spec [OF c] e by simp
  define P where "P = (\<lambda>(seg' :: 'a segment_scheme) (seg :: 'a segment_scheme).
                  seg_items seg' =
                    filter (\<lambda>i. i \<notin> low \<and> resolves its i) (seg_items seg)
                  \<and> (\<exists>ws. list_all2 (resolves_to its) (seg_items seg') ws
                           \<and> transcript seg' = Some (py_join (u '' '') ws)))"
  have one: "P (rebuild low its seg) seg" if "seg \<in> set segs" for seg
  proof -
    from cleaned_segments_retain [OF c] that e obtain ns ws where
      r: "retain low its (seg_items seg) = Inr (ns, ws)" by blast
    from retain_spec [OF r] have
      ns: "ns = retained_ids low its (seg_items seg)" and
      ws: "ws = map (word_of its) ns" and
      a: "list_all2 (resolves_to its) ns ws"
      by blast+
    have t: "transcript (rebuild low its seg) = Some (py_join (u '' '') ws)"
      using ns ws by (simp add: rebuild_def rebuilt_transcript_def)
    have n: "seg_items (rebuild low its seg) = ns"
      using ns by (simp add: rebuild_def)
    have "list_all2 (resolves_to its) (seg_items (rebuild low its seg)) ws"
      using a n by simp
    with t have "\<exists>ws. list_all2 (resolves_to its) (seg_items (rebuild low its seg)) ws
                     \<and> transcript (rebuild low its seg) = Some (py_join (u '' '') ws)"
      by blast
    moreover have "seg_items (rebuild low its seg) =
               filter (\<lambda>i. i \<notin> low \<and> resolves its i) (seg_items seg)"
      by (simp add: rebuild_def retained_ids_def)
    ultimately show ?thesis unfolding P_def by (rule conjI [rotated])
  qed
  have "list_all2 P (map (rebuild low its) (filter (survives low its) segs))
               (filter (survives low its) segs)"
    by (simp add: list_all2_map1 list_all2_same one)
  then have "list_all2 P cs (filter (survives low its) segs)"
    unfolding cs .
  moreover have "audio_segments (results data') = Some cs"
    using d by simp
  ultimately show ?thesis
    unfolding P_def low by (intro exI [of _ cs] conjI)
qed

theorem reconstruction_retains_witness:
  "filter_low_confidence_items_and_segments scenario_data (Fin (1/4)) = Inr scenario_filtered
   \<and> items (results scenario_data) = Some scenario_items
   \<and> audio_segments (results scenario_data) = Some scenario_segments
   \<and> (\<exists>cs. audio_segments (results scenario_filtered) = Some cs
          \<and> list_all2
               (\<lambda>seg' seg.
                  seg_items seg' =
                    filter (\<lambda>i. i \<notin> excluded_ids (Fin (1/4)) scenario_items
                              \<and> resolves scenario_items i) (seg_items seg)
                  \<and> (\<exists>ws. list_all2 (resolves_to scenario_items) (seg_items seg') ws
                           \<and> transcript seg' = Some (py_join (u '' '') ws)))
               cs (filter (survives (excluded_ids (Fin (1/4)) scenario_items) scenario_items)
                     scenario_segments))"
  by (intro conjI scenario_filter_run scenario_fields
        reconstruction_retains [OF scenario_filter_run scenario_fields])

text \<open>
  C8, as amended. The filter is idempotent on what it returns: a run on a transcript that
  a run with the same threshold returned returns that transcript again, unchanged.
\<close>

theorem filter_idempotent:
  assumes "filter_low_confidence_items_and_segments data threshold = Inr data'"
  shows "filter_low_confidence_items_and_segments data' threshold = Inr data'"
proof -
  from assms obtain its segs low cs where
    i: "items (results data) = Some its" and
    l: "low_confidence_ids threshold its = Inr low" and
    c: "cleaned_segments low its segs = Inr cs" and
    d: "data' = data\<lparr>results := (results data)\<lparr>audio_segments := Some cs\<rparr>\<rparr>"
    by (rule filter_returns)
  have i': "items (results data') = Some its" using d i by simp
  have s': "audio_segments (results data') = Some cs" using d by simp
  have u: "data'\<lparr>results := (results data')\<lparr>audio_segments := Some cs\<rparr>\<rparr> = data'"
    using d by simp
  from i' s' l cleaned_segments_idem [OF c] u show ?thesis
    by (simp add: filter_low_confidence_items_and_segments_def)
qed

theorem filter_idempotent_witness:
  "filter_low_confidence_items_and_segments scenario_data (Fin (1/4)) = Inr scenario_filtered
   \<and> filter_low_confidence_items_and_segments scenario_filtered (Fin (1/4))
       = Inr scenario_filtered"
  by (intro conjI scenario_filter_run filter_idempotent [OF scenario_filter_run])

text \<open>
  The claim as the specification states it, for every transcript in which no segment
  refers to a pronunciation item below the threshold, fails: with nothing to exclude,
  the step still rewrites the transcript \<open>Hello,\<close> as \<open>Hello ,\<close> and drops the segment
  without items, so its output is not its input.
\<close>

theorem unreferenced_not_fixed_counterexample:
  "excluded_ids (Fin (1/4)) punctuated_items = {}
   \<and> filter_low_confidence_items_and_segments punctuated_data (Fin (1/4))
       = Inr punctuated_filtered
   \<and> punctuated_filtered \<noteq> punctuated_data"
proof (intro conjI)
  have l: "low_confidence_ids (Fin (1/4)) punctuated_items = Inr {}"
    by (simp add: punctuated_items_def confidence_of_def u_def)
  from low_confidence_ids_excluded [OF l]
  show "excluded_ids (Fin (1/4)) punctuated_items = {}" by simp
  have c: "cleaned_segments {} punctuated_items
             [\<lparr>seg_items = [1, 2], transcript = Some (u ''Hello,''), seg_alternatives = None,
               start_time = Some (Parses (Fin 0)), end_time = Some (Parses (Fin 2))\<rparr>,
              \<lparr>seg_items = [], transcript = Some [], seg_alternatives = None,
               start_time = Some (Parses (Fin 2)), end_time = Some (Parses (Fin 3))\<rparr>]
           = Inr [\<lparr>seg_items = [1, 2], transcript = Some (u ''Hello ,''),
                   seg_alternatives = None,
                   start_time = Some (Parses (Fin 0)), end_time = Some (Parses (Fin 2))\<rparr>]"
    by (simp add: punctuated_items_def py_strip_def isspace_def u_def)
  show "filter_low_confidence_items_and_segments punctuated_data (Fin (1/4))
          = Inr punctuated_filtered"
    by (simp add: filter_low_confidence_items_and_segments_def punctuated_data_def
          punctuated_filtered_def l c del: cleaned_segments.simps)
  show "punctuated_filtered \<noteq> punctuated_data"
    by (simp add: punctuated_filtered_def punctuated_data_def)
qed

text \<open>
  C9. When the filter returns, the items of the results, and every entry of the results
  and of the document other than \<open>audio_segments\<close>, are what they were. The new segment
  list pairs off, in order, with a subsequence of the old one, and each new segment
  differs from its old one in \<open>items\<close> and \<open>transcript\<close> at most: start time, end time
  and every further entry are unchanged.
\<close>

theorem filter_frame:
  assumes "filter_low_confidence_items_and_segments data threshold = Inr data'"
  shows "items (results data') = items (results data)
       \<and> audio (results data') = audio (results data)
       \<and> results.more (results data') = results.more (results data)
       \<and> transcript_data.more data' = transcript_data.more data
       \<and> (\<exists>segs cs kept.
             audio_segments (results data) = Some segs
           \<and> audio_segments (results data') = Some cs
           \<and> subseq kept segs
           \<and> list_all2
                (\<lambda>seg' seg.
                   start_time seg' = start_time seg \<and> end_time seg' = end_time seg
                   \<and> seg_alternatives seg' = seg_alternatives seg
                   \<and> segment.more seg' = segment.more seg
                   \<and> seg' = seg\<lparr>seg_items := seg_items seg', transcript := transcript seg'\<rparr>)
                cs kept)"
proof -
  from assms obtain its segs low cs where
    s: "audio_segments (results data) = Some segs" and
    c: "cleaned_segments low its segs = Inr cs" and
    d: "data' = data\<lparr>results := (results data)\<lparr>audio_segments := Some cs\<rparr>\<rparr>"
    by (rule filter_returns)
  define kept where "kept = filter (survives low its) segs"
  have cs: "cs = map (rebuild low its) kept"
    using cleaned_segments_spec [OF c] by (simp add: kept_def)
  have sub: "subseq kept segs"
    by (simp add: kept_def)
  have pair: "list_all2
                (\<lambda>seg' seg.
                   start_time seg' = start_time seg \<and> end_time seg' = end_time seg
                   \<and> seg_alternatives seg' = seg_alternatives seg
                   \<and> segment.more seg' = segment.more seg
                   \<and> seg' = seg\<lparr>seg_items := seg_items seg', transcript := transcript seg'\<rparr>)
                cs kept"
    unfolding cs by (simp add: list_all2_map1 list_all2_same rebuild_def)
  have s': "audio_segments (results data') = Some cs" using d by simp
  from s s' sub pair have
    "\<exists>segs cs kept.
             audio_segments (results data) = Some segs
           \<and> audio_segments (results data') = Some cs
           \<and> subseq kept segs
           \<and> list_all2
                (\<lambda>seg' seg.
                   start_time seg' = start_time seg \<and> end_time seg' = end_time seg
                   \<and> seg_alternatives seg' = seg_alternatives seg
                   \<and> segment.more seg' = segment.more seg
                   \<and> seg' = seg\<lparr>seg_items := seg_items seg', transcript := transcript seg'\<rparr>)
                cs kept"
    by (intro exI [of _ segs] exI [of _ cs] exI [of _ kept] conjI)
  moreover have "items (results data') = items (results data)" using d by simp
  moreover have "audio (results data') = audio (results data)" using d by simp
  moreover have "results.more (results data') = results.more (results data)" using d by simp
  moreover have "transcript_data.more data' = transcript_data.more data" using d by simp
  ultimately show ?thesis by (intro conjI)
qed

theorem filter_frame_witness:
  "filter_low_confidence_items_and_segments scenario_data (Fin (1/4)) = Inr scenario_filtered
   \<and> items (results scenario_filtered) = items (results scenario_data)
   \<and> audio (results scenario_filtered) = audio (results scenario_data)"
proof -
  note f = filter_frame [OF scenario_filter_run]
  from scenario_filter_run f [THEN conjunct1] f [THEN conjunct2, THEN conjunct1]
  show ?thesis by (intro conjI)
qed

section \<open>Rounding to a double\<close>

lemma rne_of_int: "rne (of_int n) = n"
  by (simp add: rne_def)

lemma rne_lower: "\<lfloor>q\<rfloor> \<le> rne q"
  by (simp add: rne_def Let_def)

lemma rne_upper: "rne q \<le> \<lfloor>q\<rfloor> + 1"
  by (simp add: rne_def Let_def)

lemma rne_ge: "of_int n \<le> q \<Longrightarrow> n \<le> rne q"
proof -
  assume "of_int n \<le> q"
  then have "n \<le> \<lfloor>q\<rfloor>" by (simp add: le_floor_iff)
  with rne_lower [of q] show ?thesis by linarith
qed

lemma rne_le: "q \<le> of_int n \<Longrightarrow> rne q \<le> n"
proof (cases "q = of_int n")
  case True
  then show ?thesis by (simp add: rne_of_int)
next
  case False
  assume "q \<le> of_int n"
  with False have "q < of_int n" by simp
  then have "\<lfloor>q\<rfloor> < n" by (simp add: floor_less_iff)
  with rne_upper [of q] show ?thesis by linarith
qed

lemma rne_mono: "q \<le> q' \<Longrightarrow> rne q \<le> rne q'"
proof (cases "\<lfloor>q\<rfloor> = \<lfloor>q'\<rfloor>")
  case True
  assume "q \<le> q'"
  then have "q - of_int \<lfloor>q'\<rfloor> \<le> q' - of_int \<lfloor>q'\<rfloor>" by simp
  with True show ?thesis by (auto simp: rne_def Let_def)
next
  case False
  assume "q \<le> q'"
  then have "\<lfloor>q\<rfloor> \<le> \<lfloor>q'\<rfloor>" by (rule floor_mono)
  with False have "\<lfloor>q\<rfloor> + 1 \<le> \<lfloor>q'\<rfloor>" by simp
  with rne_upper [of q] rne_lower [of q'] show ?thesis by linarith
qed

lemma rne_near: "\<bar>q - of_int n\<bar> < 1/2 \<Longrightarrow> rne q = n"
proof (cases "of_int n \<le> q")
  case True
  assume a: "\<bar>q - of_int n\<bar> < 1/2"
  with True have "q < of_int n + 1" by linarith
  with True have f: "\<lfloor>q\<rfloor> = n" by (simp add: floor_unique)
  from a True have "q - of_int n < 1/2" by linarith
  with f show ?thesis by (simp add: rne_def)
next
  case False
  assume a: "\<bar>q - of_int n\<bar> < 1/2"
  with False have "of_int (n - 1) \<le> q" and "q < of_int (n - 1) + 1"
    by (simp_all add: abs_if split: if_splits)
  then have f: "\<lfloor>q\<rfloor> = n - 1" by (rule floor_unique)
  from a False have "1/2 < q - of_int (n - 1)"
    by (simp add: abs_if split: if_splits)
  with f show ?thesis by (simp add: rne_def)
qed

lemma expo_bounds:
  assumes "x \<noteq> 0"
  shows "2 powi (expo x) \<le> \<bar>x\<bar> \<and> \<bar>x\<bar> < 2 powi (expo x + 1)"
proof -
  obtain a b where q: "quotient_of \<bar>x\<bar> = (a, b)" by (cases "quotient_of \<bar>x\<bar>")
  have b: "0 < b" using q by (rule quotient_of_denom_pos)
  have x: "\<bar>x\<bar> = of_int a / of_int b" using q by (rule quotient_of_div)
  have "0 < \<bar>x\<bar>" using assms by simp
  with x b have a: "0 < a" by (simp add: zero_less_divide_iff)
  define ka where "ka = floorlog 2 (nat a)"
  define kb where "kb = floorlog 2 (nat b)"
  define A :: rat where "A = of_int a"
  define B :: rat where "B = of_int b"
  from a have na: "0 < nat a" by simp
  from b have nb: "0 < nat b" by simp
  from floorlog_bounds [OF na, of 2] have
    "2 ^ (ka - 1) \<le> nat a" "nat a < 2 ^ ka" by (simp_all add: ka_def)
  then have "int (2 ^ (ka - 1)) \<le> a" "a < int (2 ^ ka)" using a by linarith+
  then have A: "2 ^ (ka - 1) \<le> A" "A < 2 ^ ka"
    unfolding A_def by (metis of_int_le_iff of_int_of_nat_eq of_nat_numeral of_nat_power,
                        metis of_int_less_iff of_int_of_nat_eq of_nat_numeral of_nat_power)
  from floorlog_bounds [OF nb, of 2] have
    "2 ^ (kb - 1) \<le> nat b" "nat b < 2 ^ kb" by (simp_all add: kb_def)
  then have "int (2 ^ (kb - 1)) \<le> b" "b < int (2 ^ kb)" using b by linarith+
  then have B: "2 ^ (kb - 1) \<le> B" "B < 2 ^ kb"
    unfolding B_def by (metis of_int_le_iff of_int_of_nat_eq of_nat_numeral of_nat_power,
                        metis of_int_less_iff of_int_of_nat_eq of_nat_numeral of_nat_power)
  have ka: "0 < ka" using na by (simp add: ka_def floorlog_def)
  have kb: "0 < kb" using nb by (simp add: kb_def floorlog_def)
  have Apos: "0 < A" using a by (simp add: A_def)
  have Bpos: "0 < B" using b by (simp add: B_def)
  define e0 where "e0 = int ka - int kb"
  have p0: "(2::rat) powi e0 = 2 ^ ka / 2 ^ kb"
    by (simp add: e0_def power_int_diff)
  have ka': "(2::rat) ^ ka = 2 * 2 ^ (ka - 1)"
    using ka by (cases ka) simp_all
  have kb': "(2::rat) ^ kb = 2 * 2 ^ (kb - 1)"
    using kb by (cases kb) simp_all
  have up: "A / B < 2 ^ ka / 2 ^ (kb - 1)"
    using Apos A(2) B(1) by (intro frac_less) simp_all
  have lo: "2 ^ (ka - 1) / 2 ^ kb < A / B"
    using A(1) Bpos B(2) by (intro frac_less2) simp_all
  have p1: "(2::rat) powi (e0 + 1) = 2 ^ ka / 2 ^ (kb - 1)"
    by (simp add: power_int_add p0 kb')
  have pm: "(2::rat) powi (e0 - 1) = 2 ^ (ka - 1) / 2 ^ kb"
    by (simp add: power_int_diff p0 ka')
  have xAB: "\<bar>x\<bar> = A / B" using x by (simp add: A_def B_def)
  have e: "expo x = (if 2 powi e0 \<le> \<bar>x\<bar> then e0 else e0 - 1)"
    by (simp add: expo_def q Let_def e0_def ka_def kb_def)
  show ?thesis
  proof (cases "2 powi e0 \<le> \<bar>x\<bar>")
    case True
    with e up p1 xAB show ?thesis by simp
  next
    case False
    with e lo pm xAB show ?thesis by simp
  qed
qed

lemma expo_unique:
  assumes "2 powi e \<le> \<bar>x\<bar>" "\<bar>x\<bar> < 2 powi (e + 1)"
  shows "expo x = e"
proof -
  have "(0::rat) < 2 powi e" by simp
  with assms(1) have "0 < \<bar>x\<bar>" by linarith
  then have "x \<noteq> 0" by simp
  from expo_bounds [OF this] have
    b: "2 powi (expo x) \<le> \<bar>x\<bar>" "\<bar>x\<bar> < 2 powi (expo x + 1)" by simp_all
  have "expo x < e + 1"
  proof (rule ccontr)
    assume "\<not> expo x < e + 1"
    then have "e + 1 \<le> expo x" by simp
    then have "(2::rat) powi (e + 1) \<le> 2 powi (expo x)"
      by (intro power_int_increasing) simp_all
    with b(1) assms(2) show False by linarith
  qed
  moreover have "e < expo x + 1"
  proof (rule ccontr)
    assume "\<not> e < expo x + 1"
    then have "expo x + 1 \<le> e" by simp
    then have "(2::rat) powi (expo x + 1) \<le> 2 powi e"
      by (intro power_int_increasing) simp_all
    with b(2) assms(1) show False by linarith
  qed
  ultimately show ?thesis by simp
qed

lemma expo_mono:
  assumes "x \<noteq> 0" "\<bar>x\<bar> \<le> \<bar>y\<bar>"
  shows "expo x \<le> expo y"
proof (rule ccontr)
  assume "\<not> expo x \<le> expo y"
  then have "expo y + 1 \<le> expo x" by simp
  then have "(2::rat) powi (expo y + 1) \<le> 2 powi (expo x)"
    by (intro power_int_increasing) simp_all
  moreover from assms have "y \<noteq> 0" by auto
  ultimately show False
    using expo_bounds [OF assms(1)] expo_bounds [OF \<open>y \<noteq> 0\<close>] assms(2) by linarith
qed

lemma round_double_zero: "round_double 0 = 0"
  by (simp add: round_double_def)

lemma round_double_nonneg: "0 \<le> x \<Longrightarrow> 0 \<le> round_double x"
proof -
  assume x: "0 \<le> x"
  have "0 \<le> rne (x / 2 powi s)" for s
    using x by (intro rne_ge) simp
  then show ?thesis by (simp add: round_double_def Let_def)
qed

lemma round_double_mono_pos:
  assumes "0 < x" "x \<le> y"
  shows "round_double x \<le> round_double y"
proof -
  define sx where "sx = max (expo x) (- 1022) - 52"
  define sy where "sy = max (expo y) (- 1022) - 52"
  from assms have x0: "x \<noteq> 0" and y0: "y \<noteq> 0" and ypos: "0 < y" by simp_all
  have rx: "round_double x = of_int (rne (x / 2 powi sx)) * 2 powi sx"
    using x0 by (simp add: round_double_def sx_def Let_def)
  have ry: "round_double y = of_int (rne (y / 2 powi sy)) * 2 powi sy"
    using y0 by (simp add: round_double_def sy_def Let_def)
  have ex: "expo x \<le> expo y"
    using assms by (intro expo_mono) simp_all
  then have sxy: "sx \<le> sy" by (simp add: sx_def sy_def)
  show ?thesis
  proof (cases "sx = sy")
    case True
    have "x / 2 powi sy \<le> y / 2 powi sy"
      using assms(2) by (intro divide_right_mono) simp_all
    then have "rne (x / 2 powi sy) \<le> rne (y / 2 powi sy)" by (rule rne_mono)
    then have "(of_int (rne (x / 2 powi sy)) :: rat) \<le> of_int (rne (y / 2 powi sy))"
      by simp
    then have "of_int (rne (x / 2 powi sy)) * (2::rat) powi sy
                 \<le> of_int (rne (y / 2 powi sy)) * 2 powi sy"
      by (intro mult_right_mono) simp_all
    with rx ry True show ?thesis by simp
  next
    case False
    with sxy have lt: "sx < sy" by simp
    then have ey: "- 1022 < expo y" and sy: "sy = expo y - 52" and exy: "expo x < expo y"
      using ex by (auto simp: sx_def sy_def max_def split: if_splits)
    define d where "d = nat (expo y - sx)"
    have dn: "int d = expo y - sx" using lt sy by (simp add: d_def)
    have bx: "\<bar>x\<bar> < 2 powi (expo x + 1)" and "2 powi (expo y) \<le> \<bar>y\<bar>"
      using expo_bounds [OF x0] expo_bounds [OF y0] by simp_all
    then have xu: "x < 2 powi (expo x + 1)" and yl: "2 powi (expo y) \<le> y"
      using assms(1) ypos by simp_all
    have "(2::rat) powi (expo x + 1) \<le> 2 powi (expo y)"
      using exy by (intro power_int_increasing) simp_all
    with xu have xle: "x \<le> 2 powi (expo y)" by linarith
    have pw: "(2::rat) powi (expo y) = of_int (2 ^ d) * 2 powi sx"
    proof -
      have "(2::rat) powi (expo y) = 2 powi (int d + sx)" using dn by simp
      also have "\<dots> = 2 powi (int d) * 2 powi sx" by (simp add: power_int_add)
      finally show ?thesis by simp
    qed
    have "x / 2 powi sx \<le> 2 powi (expo y) / 2 powi sx"
      using xle by (intro divide_right_mono) simp_all
    also have "\<dots> = of_int (2 ^ d)" by (simp add: pw)
    finally have "rne (x / 2 powi sx) \<le> 2 ^ d" by (rule rne_le)
    then have "(of_int (rne (x / 2 powi sx)) :: rat) \<le> of_int (2 ^ d)"
      by (simp only: of_int_le_iff)
    then have "of_int (rne (x / 2 powi sx)) * (2::rat) powi sx \<le> of_int (2 ^ d) * 2 powi sx"
      by (intro mult_right_mono) simp_all
    with rx pw have up: "round_double x \<le> 2 powi (expo y)" by simp
    have pw2: "(2::rat) powi (expo y) = of_int (2 ^ 52) * 2 powi sy"
    proof -
      have "(2::rat) powi (expo y) = 2 powi (52 + sy)" using sy by simp
      also have "\<dots> = 2 powi 52 * 2 powi sy" by (rule power_int_add) simp
      finally show ?thesis by simp
    qed
    have "(of_int (2 ^ 52) :: rat) = 2 powi (expo y) / 2 powi sy" by (simp add: pw2)
    also have "\<dots> \<le> y / 2 powi sy"
      using yl by (intro divide_right_mono) simp_all
    finally have "2 ^ 52 \<le> rne (y / 2 powi sy)" by (rule rne_ge)
    then have "(of_int (2 ^ 52) :: rat) \<le> of_int (rne (y / 2 powi sy))"
      by (simp only: of_int_le_iff)
    then have "of_int (2 ^ 52) * (2::rat) powi sy \<le> of_int (rne (y / 2 powi sy)) * 2 powi sy"
      by (intro mult_right_mono) simp_all
    with ry pw2 have "2 powi (expo y) \<le> round_double y" by simp
    with up show ?thesis by linarith
  qed
qed

lemma round_double_mono:
  assumes "0 \<le> x" "x \<le> y"
  shows "round_double x \<le> round_double y"
proof (cases "x = 0")
  case True
  with assms round_double_nonneg [of y] show ?thesis by (simp add: round_double_zero)
next
  case False
  with assms(1) have "0 < x" by simp
  then show ?thesis using assms(2) by (rule round_double_mono_pos)
qed

lemma round_double_exact:
  assumes "expo x = e" "x \<noteq> 0" "x / 2 powi (max e (- 1022) - 52) = of_int m"
  shows "round_double x = x"
proof -
  have "round_double x = of_int (rne (of_int m)) * 2 powi (max e (- 1022) - 52)"
    using assms by (simp add: round_double_def Let_def)
  also have "\<dots> = x / 2 powi (max e (- 1022) - 52) * 2 powi (max e (- 1022) - 52)"
    using assms(3) by (simp add: rne_of_int)
  also have "\<dots> = x" by simp
  finally show ?thesis .
qed

lemma round_double_pow2:
  assumes "0 \<le> n"
  shows "round_double (2 powi n) = 2 powi n"
proof -
  have e: "expo (2 powi n) = n"
    by (rule expo_unique) (simp_all add: power_int_strict_increasing)
  have "(2::rat) powi n = 2 powi (52 + (n - 52))" by simp
  also have "\<dots> = 2 powi 52 * 2 powi (n - 52)" by (rule power_int_add) simp
  finally have "(2::rat) powi n / 2 powi (n - 52) = of_int (2 ^ 52)" by simp
  with assms have "(2::rat) powi n / 2 powi (max n (- 1022) - 52) = of_int (2 ^ 52)"
    by (simp add: max_def)
  with e show ?thesis by (intro round_double_exact [of _ n "2 ^ 52"]) simp_all
qed

lemma round_double_le_pow2:
  assumes "0 \<le> x" "x \<le> 2 ^ n"
  shows "round_double x \<le> 2 ^ n"
proof -
  have "round_double x \<le> round_double (2 powi (int n))"
    using assms by (intro round_double_mono) simp_all
  also have "\<dots> = 2 powi (int n)" by (rule round_double_pow2) simp
  finally show ?thesis by simp
qed

lemma double_of_finite:
  assumes "0 \<le> x" "x \<le> 2 ^ 1023"
  shows "double_of x = Fin (round_double x)"
proof -
  have "round_double x \<le> 2 ^ 1023" using assms by (rule round_double_le_pow2)
  also have "(2::rat) ^ 1023 < 2 ^ 1024" by (intro power_strict_increasing) simp_all
  finally have "\<not> 2 ^ 1024 \<le> round_double x" by simp
  moreover have "\<not> round_double x \<le> - (2 ^ 1024)"
  proof -
    have "(0::rat) < 2 ^ 1024" by simp
    with round_double_nonneg [OF assms(1)] show ?thesis by linarith
  qed
  ultimately show ?thesis by (simp add: double_of_def Let_def)
qed

subsection \<open>The character budget\<close>

lemma round_double_eq:
  assumes "expo x = e" "x \<noteq> 0" "s = max e (- 1022) - 52" "\<bar>x / 2 powi s - of_int m\<bar> < 1/2"
  shows "round_double x = of_int m * 2 powi s"
proof -
  from assms(4) have "rne (x / 2 powi s) = m" by (rule rne_near)
  with assms(1,2,3) show ?thesis by (simp add: round_double_def Let_def)
qed

lemma speech_rate_value: "speech_rate = 799388933858263 / 140737488355328"
proof -
  have e: "expo (142/25) = 2" by (rule expo_unique) simp_all
  have "round_double (142/25) = of_int 6395111470866104 * 2 powi (- 50)"
    by (rule round_double_eq [OF e]) simp_all
  then show ?thesis by (simp add: speech_rate_def)
qed

lemma budget_value:
  assumes "s \<le> e" "e - s \<le> 2 ^ 1000"
  shows "max_translated_characters (Fin s) (Fin e) =
           Inr \<lfloor>round_double (round_double (e - s) * speech_rate)\<rfloor>
         \<and> 0 \<le> round_double (round_double (e - s) * speech_rate)"
proof -
  define d where "d = round_double (e - s)"
  define k where "k = speech_rate"
  have k: "0 \<le> k" "k \<le> 2 ^ 3" by (simp_all add: k_def speech_rate_value)
  from assms have nn: "0 \<le> e - s" by simp
  have d0: "0 \<le> d" unfolding d_def using nn by (rule round_double_nonneg)
  have d1: "d \<le> 2 ^ 1000" unfolding d_def using nn assms(2) by (rule round_double_le_pow2)
  have "e - s \<le> 2 ^ 1023"
  proof -
    have "(2::rat) ^ 1000 \<le> 2 ^ 1023" by (intro power_increasing) simp_all
    with assms(2) show ?thesis by linarith
  qed
  with nn have sub: "float_sub (Fin e) (Fin s) = Fin d"
    by (simp add: double_of_finite d_def)
  have p0: "0 \<le> d * k" using d0 k(1) by simp
  have "d * k \<le> 2 ^ 1000 * 2 ^ 3"
    using d0 d1 k by (intro mult_mono) simp_all
  also have "\<dots> = (2::rat) ^ 1003" by (simp flip: power_add)
  also have "\<dots> \<le> 2 ^ 1023" by (intro power_increasing) simp_all
  finally have p1: "d * k \<le> 2 ^ 1023" .
  have mul: "float_mul (Fin d) (Fin speech_rate) = Fin (round_double (d * k))"
    using p0 p1 by (simp add: double_of_finite k_def)
  have r0: "0 \<le> round_double (d * k)" using p0 by (rule round_double_nonneg)
  then have "py_int (Fin (round_double (d * k))) = Inr \<lfloor>round_double (d * k)\<rfloor>" by simp
  with sub mul r0 show ?thesis
    by (simp add: max_translated_characters_def d_def k_def)
qed

lemma budget_monotone:
  assumes "0 \<le> d'" "d' \<le> d"
  shows "\<lfloor>round_double (round_double d' * speech_rate)\<rfloor>
           \<le> \<lfloor>round_double (round_double d * speech_rate)\<rfloor>"
proof -
  have k: "0 \<le> speech_rate" by (simp add: speech_rate_value)
  have a: "round_double d' \<le> round_double d" using assms by (rule round_double_mono)
  have b: "0 \<le> round_double d'" using assms(1) by (rule round_double_nonneg)
  have "round_double d' * speech_rate \<le> round_double d * speech_rate"
    using a k by (rule mult_right_mono)
  moreover have "0 \<le> round_double d' * speech_rate" using b k by simp
  ultimately have "round_double (round_double d' * speech_rate)
                     \<le> round_double (round_double d * speech_rate)"
    by (intro round_double_mono)
  then show ?thesis by (rule floor_mono)
qed

lemma round_double_ten: "round_double 10 = 10"
proof -
  have e: "expo 10 = 3" by (rule expo_unique) simp_all
  show ?thesis
    by (rule round_double_exact [OF e, of 5629499534213120]) simp_all
qed

lemma round_double_ten_times:
  "round_double (3996944669291315 / 70368744177664) = 3996944669291315 / 70368744177664"
proof -
  have e: "expo (3996944669291315 / 70368744177664) = 5"
    by (rule expo_unique) simp_all
  show ?thesis
    by (rule round_double_exact [OF e, of 7993889338582630]) simp_all
qed

lemma budget_ten:
  "\<lfloor>round_double (round_double (10 - 0) * speech_rate)\<rfloor> = 56"
proof -
  have "\<lfloor>(3996944669291315 / 70368744177664 :: rat)\<rfloor> = 56"
    by (rule floor_unique) simp_all
  then show ?thesis
    by (simp add: round_double_ten speech_rate_value round_double_ten_times)
qed

section \<open>Translation outcomes\<close>

lemma error_tag_nonempty: "error_tag \<noteq> []"
  by (simp add: error_tag_def u_def)





lemma fallback_text_nonempty: "fallback_text lower english_text \<noteq> []"
  by (simp add: fallback_text_def placeholder_def error_tag_nonempty)

lemma translated_text_nonempty: "translated_text lower outcome english_text \<noteq> []"
  by (simp add: translated_text_def fallback_text_nonempty placeholder_def
           split: invoke_result.splits sum.splits)








lemma translate_segments_step:
  assumes "time_of (start_time entry) = Inr start_t"
    and "time_of (end_time entry) = Inr end_t"
    and "max_translated_characters start_t end_t = Inr n"
    and "english_text_of entry = Some english_text"
    and "bedrock w \<lparr>budget = n, english = english_text\<rparr> = (outcome, w')"
    and "translate_segments lower bedrock w' entries = Inr subtitles"
  shows "translate_segments lower bedrock w (entry # entries) =
           Inr (\<lparr>sub_start_time = start_t, sub_end_time = end_t, sub_text = english_text,
                 ja_text = translated_text lower outcome english_text\<rparr> # subtitles)"
  using assms by (simp add: Let_def translated_text_nonempty)

lemma translate_segments_nonempty:
  "translate_segments lower bedrock w entries = Inr subs \<Longrightarrow> s \<in> set subs \<Longrightarrow> ja_text s \<noteq> []"
proof (induction entries arbitrary: w subs)
  case Nil
  then show ?case by simp
next
  case (Cons entry entries)
  from Cons.prems(1) obtain start_t end_t n where
    t: "time_of (start_time entry) = Inr start_t" "time_of (end_time entry) = Inr end_t"
       "max_translated_characters start_t end_t = Inr n"
    by (auto split: sum.splits)
  show ?case
  proof (cases "english_text_of entry")
    case None
    with t Cons.prems(1) have "translate_segments lower bedrock w entries = Inr subs"
      by simp
    from Cons.IH [OF this Cons.prems(2)] show ?thesis .
  next
    case (Some en)
    obtain outcome w' where b: "bedrock w \<lparr>budget = n, english = en\<rparr> = (outcome, w')"
      by (cases "bedrock w \<lparr>budget = n, english = en\<rparr>")
    with t Some Cons.prems(1) obtain subs' where
      tl: "translate_segments lower bedrock w' entries = Inr subs'" and
      subs: "subs = \<lparr>sub_start_time = start_t, sub_end_time = end_t, sub_text = en,
                     ja_text = translated_text lower outcome en\<rparr> # subs'"
      by (auto simp: Let_def translated_text_nonempty split: sum.splits)
    show ?thesis
    proof (cases "s \<in> set subs'")
      case True
      from Cons.IH [OF tl True] show ?thesis .
    next
      case False
      with subs Cons.prems(2) have "ja_text s = translated_text lower outcome en" by auto
      then show ?thesis by (simp add: translated_text_nonempty)
    qed
  qed
qed

lemma translate_segments_length:
  "translate_segments lower bedrock w entries = Inr subs \<Longrightarrow> length subs \<le> length entries"
proof (induction entries arbitrary: w subs)
  case Nil
  then show ?case by simp
next
  case (Cons entry entries)
  from Cons.prems(1) obtain start_t end_t n where
    t: "time_of (start_time entry) = Inr start_t" "time_of (end_time entry) = Inr end_t"
       "max_translated_characters start_t end_t = Inr n"
    by (auto split: sum.splits)
  show ?case
  proof (cases "english_text_of entry")
    case None
    with t Cons.prems(1) have "translate_segments lower bedrock w entries = Inr subs"
      by simp
    from Cons.IH [OF this] show ?thesis by simp
  next
    case (Some en)
    obtain outcome w' where b: "bedrock w \<lparr>budget = n, english = en\<rparr> = (outcome, w')"
      by (cases "bedrock w \<lparr>budget = n, english = en\<rparr>")
    with t Some Cons.prems(1) obtain subs' where
      tl: "translate_segments lower bedrock w' entries = Inr subs'" and
      subs: "length subs = Suc (length subs')"
      by (auto simp: Let_def split: sum.splits)
    from Cons.IH [OF tl] subs show ?thesis by simp
  qed
qed

lemma translate_segments_texts:
  "translate_segments lower bedrock w entries = Inr subs \<Longrightarrow>
     list_all (\<lambda>entry. transcript entry \<noteq> None) entries \<Longrightarrow>
     map sub_text subs = map (\<lambda>entry. the (transcript entry)) entries"
proof (induction entries arbitrary: w subs)
  case Nil
  then show ?case by simp
next
  case (Cons entry entries)
  from Cons.prems(1) obtain start_t end_t n where
    t: "time_of (start_time entry) = Inr start_t" "time_of (end_time entry) = Inr end_t"
       "max_translated_characters start_t end_t = Inr n"
    by (auto split: sum.splits)
  from Cons.prems(2) obtain en where en: "transcript entry = Some en" by auto
  then have e: "english_text_of entry = Some en" by (simp add: english_text_of_def)
  obtain outcome w' where b: "bedrock w \<lparr>budget = n, english = en\<rparr> = (outcome, w')"
    by (cases "bedrock w \<lparr>budget = n, english = en\<rparr>")
  with t e Cons.prems(1) obtain subs' sub where
    tl: "translate_segments lower bedrock w' entries = Inr subs'" and
    subs: "subs = sub # subs'" "sub_text sub = en"
    by (auto simp: Let_def split: sum.splits)
  from Cons.prems(2) have "list_all (\<lambda>entry. transcript entry \<noteq> None) entries" by simp
  from Cons.IH [OF tl this] subs en show ?case by simp
qed


subsection \<open>The scenario, translated\<close>

lemma round_double_two: "round_double 2 = 2"
  using round_double_pow2 [of 1] by simp

lemma round_double_two_times:
  "round_double (799388933858263 / 70368744177664) = 799388933858263 / 70368744177664"
proof -
  have e: "expo (799388933858263 / 70368744177664) = 3"
    by (rule expo_unique) simp_all
  show ?thesis
    by (rule round_double_exact [OF e, of 6395111470866104]) simp_all
qed

lemma budget_two: "\<lfloor>round_double (round_double 2 * speech_rate)\<rfloor> = 11"
proof -
  have "\<lfloor>(799388933858263 / 70368744177664 :: rat)\<rfloor> = 11"
    by (rule floor_unique) simp_all
  then show ?thesis
    by (simp add: round_double_two speech_rate_value round_double_two_times)
qed

lemma scenario_budgets:
  "max_translated_characters (Fin 0) (Fin 2) = Inr 11"
  "max_translated_characters (Fin 2) (Fin 4) = Inr 11"
proof -
  have b: "(2::rat) \<le> 2 ^ 1000"
    using power_increasing [of 1 1000 "2::rat"] by simp
  have "max_translated_characters (Fin 0) (Fin 2) =
          Inr \<lfloor>round_double (round_double (2 - 0) * speech_rate)\<rfloor>"
    using b by (intro budget_value [THEN conjunct1]) simp_all
  then show "max_translated_characters (Fin 0) (Fin 2) = Inr 11"
    by (simp add: budget_two)
  have "max_translated_characters (Fin 2) (Fin 4) =
          Inr \<lfloor>round_double (round_double (4 - 2) * speech_rate)\<rfloor>"
    using b by (intro budget_value [THEN conjunct1]) simp_all
  then show "max_translated_characters (Fin 2) (Fin 4) = Inr 11"
    by (simp add: budget_two)
qed

lemma scenario_first_text:
  "translated_text ascii_lower (fst (scenario_bedrock 0 req)) (u ''Hello'')
     = [12371, 12435, 12395, 12385, 12399]"
  by (simp add: scenario_bedrock_def translated_text_def response_text_def
        py_strip_def isspace_def u_def)

lemma scenario_second_text:
  "translated_text ascii_lower (fst (scenario_bedrock (Suc 0) req)) (u ''Goodbye .'')
     = u ''[TRANSLATION_ERROR] Goodbye .''"
  by (simp add: scenario_bedrock_def translated_text_def response_text_def
        fallback_text_def filler_list_def error_tag_def ascii_lower_def
        py_strip_def isspace_def u_def)

lemma scenario_translated:
  "translate_segments ascii_lower scenario_bedrock 0 scenario_cleaned = Inr scenario_subtitles"
proof -
  let ?a = "\<lparr>seg_items = [1], transcript = Some (u ''Hello''), seg_alternatives = None,
       start_time = Some (Parses (Fin 0)), end_time = Some (Parses (Fin 2))\<rparr>"
  let ?b = "\<lparr>seg_items = [3, 4], transcript = Some (u ''Goodbye .''), seg_alternatives = None,
       start_time = Some (Parses (Fin 2)), end_time = Some (Parses (Fin 4))\<rparr>"
  have nil: "translate_segments ascii_lower scenario_bedrock (Suc (Suc 0)) ([] :: segment list)
               = Inr []"
    by simp
  have two: "translate_segments ascii_lower scenario_bedrock (Suc 0) [?b] =
               Inr [\<lparr>sub_start_time = Fin 2, sub_end_time = Fin 4, sub_text = u ''Goodbye .'',
                     ja_text = translated_text ascii_lower
                       (fst (scenario_bedrock (Suc 0) \<lparr>budget = 11, english = u ''Goodbye .''\<rparr>))
                       (u ''Goodbye .'')\<rparr>]"
    by (rule translate_segments_step [OF _ _ scenario_budgets(2) _ _ nil])
       (simp_all add: time_of_def english_text_of_def scenario_bedrock_def)
  have one: "translate_segments ascii_lower scenario_bedrock 0 [?a, ?b] =
               Inr [\<lparr>sub_start_time = Fin 0, sub_end_time = Fin 2, sub_text = u ''Hello'',
                     ja_text = translated_text ascii_lower
                       (fst (scenario_bedrock 0 \<lparr>budget = 11, english = u ''Hello''\<rparr>))
                       (u ''Hello'')\<rparr>,
                    \<lparr>sub_start_time = Fin 2, sub_end_time = Fin 4, sub_text = u ''Goodbye .'',
                     ja_text = translated_text ascii_lower
                       (fst (scenario_bedrock (Suc 0) \<lparr>budget = 11, english = u ''Goodbye .''\<rparr>))
                       (u ''Goodbye .'')\<rparr>]"
    by (rule translate_segments_step [OF _ _ scenario_budgets(1) _ _ two])
       (simp_all add: time_of_def english_text_of_def scenario_bedrock_def)
  show ?thesis
    unfolding scenario_cleaned_def scenario_subtitles_def
    using one by (simp only: scenario_first_text scenario_second_text)
qed

lemma scenario_handled:
  "lambda_handler ascii_lower scenario_bedrock 0 scenario_data = Inr scenario_subtitles"
  by (simp add: lambda_handler_def scenario_filter_run segments_to_translate_def
        scenario_filtered_def scenario_translated)

section \<open>The character budget of a segment\<close>

lemma budget_partial:
  assumes "s \<le> e" "max_translated_characters (Fin s) (Fin e) = Inr n"
  shows "n = \<lfloor>round_double (round_double (e - s) * speech_rate)\<rfloor>"
proof -
  define d where "d = round_double (e - s)"
  define p where "p = round_double (d * speech_rate)"
  have k: "0 < speech_rate" by (simp add: speech_rate_value)
  from assms(1) have "0 \<le> e - s" by simp
  then have d0: "0 \<le> d" unfolding d_def by (rule round_double_nonneg)
  then have "0 \<le> d * speech_rate" using k by simp
  then have p0: "0 \<le> p" unfolding p_def by (rule round_double_nonneg)
  have big: "(0::rat) < 2 ^ 1024" by simp
  have sub: "float_sub (Fin e) (Fin s) = (if 2 ^ 1024 \<le> d then PInf else Fin d)"
    using d0 big by (simp add: double_of_def d_def Let_def)
  have mul: "float_mul (Fin d) (Fin speech_rate) = (if 2 ^ 1024 \<le> p then PInf else Fin p)"
    using p0 big by (simp add: double_of_def p_def Let_def)
  have inf: "float_mul PInf (Fin speech_rate) = PInf"
    using k by (simp add: Let_def)
  show ?thesis
  proof (cases "2 ^ 1024 \<le> d")
    case True
    with sub inf assms(2) show ?thesis
      by (simp add: max_translated_characters_def)
  next
    case False
    note fd = this
    show ?thesis
    proof (cases "2 ^ 1024 \<le> p")
      case True
      with fd sub mul assms(2) show ?thesis
        by (simp add: max_translated_characters_def)
    next
      case False
      with fd sub mul assms(2) p0 have "n = \<lfloor>p\<rfloor>"
        by (simp add: max_translated_characters_def)
      then show ?thesis by (simp add: p_def d_def)
    qed
  qed
qed

text \<open>
  C3, as amended. The arithmetic is Python's: times are doubles, and the difference, the product with
  the double nearest to 5.68 (\<open>speech_rate\<close>) and the conversion to an integer are each
  the float operation. For finite times with start at most end, a budget that is
  computed is the floor of that product, and it is computed whenever the duration is at
  most \<open>2\<^sup>1\<^sup>0\<^sup>0\<^sup>0\<close> seconds (beyond the range of doubles the conversion raises
  OverflowError). The budget is 0 when the two times are equal; it does not decrease
  when the duration grows; and for the times 0.0 and 10.0 it is 56.
\<close>

theorem character_budget:
  assumes "s \<le> e"
  shows "(\<forall>n. max_translated_characters (Fin s) (Fin e) = Inr n \<longrightarrow>
             n = \<lfloor>round_double (round_double (e - s) * speech_rate)\<rfloor>)
       \<and> (e - s \<le> 2 ^ 1000 \<longrightarrow>
             max_translated_characters (Fin s) (Fin e) =
               Inr \<lfloor>round_double (round_double (e - s) * speech_rate)\<rfloor>)
       \<and> max_translated_characters (Fin s) (Fin s) = Inr 0
       \<and> (\<forall>s' e' n' n. s' \<le> e' \<and> e' - s' \<le> e - s
               \<and> max_translated_characters (Fin s') (Fin e') = Inr n'
               \<and> max_translated_characters (Fin s) (Fin e) = Inr n \<longrightarrow> n' \<le> n)
       \<and> max_translated_characters (Fin 0) (Fin 10) = Inr 56"
proof (intro conjI allI impI)
  fix n
  assume "max_translated_characters (Fin s) (Fin e) = Inr n"
  with assms show "n = \<lfloor>round_double (round_double (e - s) * speech_rate)\<rfloor>"
    by (rule budget_partial)
next
  assume "e - s \<le> 2 ^ 1000"
  with assms show "max_translated_characters (Fin s) (Fin e) =
           Inr \<lfloor>round_double (round_double (e - s) * speech_rate)\<rfloor>"
    by (rule budget_value [THEN conjunct1])
next
  have "max_translated_characters (Fin s) (Fin s) =
           Inr \<lfloor>round_double (round_double (s - s) * speech_rate)\<rfloor>"
    by (rule budget_value [THEN conjunct1]) simp_all
  then show "max_translated_characters (Fin s) (Fin s) = Inr 0"
    by (simp add: round_double_zero)
next
  have "max_translated_characters (Fin 0) (Fin 10) =
           Inr \<lfloor>round_double (round_double (10 - 0) * speech_rate)\<rfloor>"
    by (rule budget_value [THEN conjunct1]) simp_all
  then show "max_translated_characters (Fin 0) (Fin 10) = Inr 56"
    by (simp only: budget_ten)
next
  fix s' e' :: rat and n' n :: int
  assume h: "s' \<le> e' \<and> e' - s' \<le> e - s
               \<and> max_translated_characters (Fin s') (Fin e') = Inr n'
               \<and> max_translated_characters (Fin s) (Fin e) = Inr n"
  then have le: "s' \<le> e'" and d: "e' - s' \<le> e - s"
    and v': "max_translated_characters (Fin s') (Fin e') = Inr n'"
    and v: "max_translated_characters (Fin s) (Fin e) = Inr n"
    by simp_all
  from le have nn: "0 \<le> e' - s'" by simp
  from budget_partial [OF le v'] budget_partial [OF assms v] budget_monotone [OF nn d]
  show "n' \<le> n" by simp
qed

theorem character_budget_witness:
  "(2::rat) \<le> 4
   \<and> max_translated_characters (Fin 2) (Fin 4) = Inr 11
   \<and> max_translated_characters (Fin 2) (Fin 2) = Inr 0
   \<and> max_translated_characters (Fin 0) (Fin 10) = Inr 56"
proof -
  have a: "(2::rat) \<le> 4" by simp
  note t = character_budget [OF a]
  from a scenario_budgets(2) t [THEN conjunct2, THEN conjunct2, THEN conjunct1]
    t [THEN conjunct2, THEN conjunct2, THEN conjunct2, THEN conjunct2]
  show ?thesis by (intro conjI)
qed

text \<open>
  The claim as the specification states it, with the exact product, fails: for the times
  0.0 and 12.852112676056338 the exact product with 5.68 is just below 73 and its floor
  is 72, while the float product rounds to 73.0 and the budget is 73.
\<close>

theorem exact_floor_counterexample:
  "max_translated_characters (Fin 0) (Fin (7235096232351369 / 562949953421312)) = Inr 73
   \<and> \<lfloor>(7235096232351369 / 562949953421312 - 0) * (568 / 100 :: rat)\<rfloor> = 72"
proof
  have e: "expo (7235096232351369 / 562949953421312) = 3"
    by (rule expo_unique) simp_all
  have d: "round_double (7235096232351369 / 562949953421312)
             = 7235096232351369 / 562949953421312"
    by (rule round_double_exact [OF e, of 7235096232351369]) simp_all
  have e2: "expo (5783655863541296343665860012047 / 79228162514264337593543950336) = 6"
    by (rule expo_unique) simp_all
  have "round_double (5783655863541296343665860012047 / 79228162514264337593543950336)
          = of_int 5136918324969472 * 2 powi (- 46)"
    by (rule round_double_eq [OF e2]) simp_all
  then have p: "round_double (5783655863541296343665860012047 / 79228162514264337593543950336)
                  = 73"
    by simp
  have b: "(7235096232351369 / 562949953421312 :: rat) - 0 \<le> 2 ^ 1000"
  proof -
    have "(7235096232351369 / 562949953421312 :: rat) \<le> 2 ^ 4" by simp
    also have "(2::rat) ^ 4 \<le> 2 ^ 1000" by (intro power_increasing) simp_all
    finally show ?thesis by simp
  qed
  have "max_translated_characters (Fin 0) (Fin (7235096232351369 / 562949953421312)) =
          Inr \<lfloor>round_double (round_double (7235096232351369 / 562949953421312 - 0)
                               * speech_rate)\<rfloor>"
    using b by (intro budget_value [THEN conjunct1]) simp_all
  then show "max_translated_characters (Fin 0) (Fin (7235096232351369 / 562949953421312))
               = Inr 73"
    by (simp add: d speech_rate_value p)
  show "\<lfloor>(7235096232351369 / 562949953421312 - 0) * (568 / 100 :: rat)\<rfloor> = 72"
    by (rule floor_unique) simp_all
qed

section \<open>The handler\<close>





text \<open>
  C6. When the filter returns, the new segment list is the reconstruction of exactly the
  segments whose reconstructed transcript is not blank, in the order of the input: a
  segment whose reconstructed transcript is empty or white space only has no entry. The
  kept segments are a subsequence of the input, every new transcript is not blank, and
  the new list is no longer than the input. The loop makes one subtitle for each new
  segment, with the new transcript as its text, so the handler emits at most as many
  subtitles as there are input segments.
\<close>

theorem blank_segments_dropped:
  assumes "filter_low_confidence_items_and_segments data threshold = Inr data'"
    and "items (results data) = Some its"
    and "audio_segments (results data) = Some segs"
  shows "\<exists>cs. audio_segments (results data') = Some cs
          \<and> cs = map (rebuild (excluded_ids threshold its) its)
                     (filter (survives (excluded_ids threshold its) its) segs)
          \<and> subseq (filter (survives (excluded_ids threshold its) its) segs) segs
          \<and> (\<forall>seg' \<in> set cs. \<exists>t. transcript seg' = Some t \<and> \<not> blank t)
          \<and> length cs \<le> length segs
          \<and> (\<forall>lower bedrock (w :: 'w) subs.
                translate_segments lower bedrock w cs = Inr subs \<longrightarrow>
                length subs = length cs
                \<and> map sub_text subs = map (\<lambda>seg'. the (transcript seg')) cs)
          \<and> (\<forall>lower bedrock (w :: 'w) subs.
                threshold = Fin (1/4) \<and> lambda_handler lower bedrock w data = Inr subs \<longrightarrow>
                length subs \<le> length segs)"
proof -
  from assms(1) obtain its0 segs0 low cs where
    i: "items (results data) = Some its0" and
    s: "audio_segments (results data) = Some segs0" and
    l: "low_confidence_ids threshold its0 = Inr low" and
    c: "cleaned_segments low its0 segs0 = Inr cs" and
    d: "data' = data\<lparr>results := (results data)\<lparr>audio_segments := Some cs\<rparr>\<rparr>"
    by (rule filter_returns)
  from i s assms(2,3) have e: "its0 = its" "segs0 = segs" by simp_all
  have low: "low = excluded_ids threshold its"
    using low_confidence_ids_excluded [OF l] e by simp
  define kept where "kept = filter (survives low its) segs"
  have cs: "cs = map (rebuild low its) kept"
    using cleaned_segments_spec [OF c] e by (simp add: kept_def)
  have sub: "subseq kept segs" by (simp add: kept_def)
  have len: "length cs \<le> length segs" by (simp add: cs kept_def)
  have nb: "\<exists>t. transcript seg' = Some t \<and> \<not> blank t" if "seg' \<in> set cs" for seg'
  proof -
    from that cs obtain seg where "seg \<in> set kept" "seg' = rebuild low its seg" by auto
    then show ?thesis by (simp add: kept_def survives_def rebuild_def)
  qed
  have all: "list_all (\<lambda>entry. transcript entry \<noteq> None) cs"
    using nb by (auto simp: list_all_iff)
  have tr: "length subs = length cs
            \<and> map sub_text subs = map (\<lambda>seg'. the (transcript seg')) cs"
    if "translate_segments lower bedrock w cs = Inr subs"
    for lower and bedrock :: "'w \<Rightarrow> request \<Rightarrow> invoke_result \<times> 'w" and w subs
  proof -
    from translate_segments_texts [OF that all]
    have m: "map sub_text subs = map (\<lambda>seg'. the (transcript seg')) cs" .
    then have "length (map sub_text subs) = length (map (\<lambda>seg'. the (transcript seg')) cs)"
      by simp
    then have "length subs = length cs" by simp
    with m show ?thesis by (rule conjI [rotated])
  qed
  have h: "length subs \<le> length segs"
    if "threshold = Fin (1/4) \<and> lambda_handler lower bedrock w data = Inr subs"
    for lower and bedrock :: "'w \<Rightarrow> request \<Rightarrow> invoke_result \<times> 'w" and w subs
  proof -
    from that assms(1) have f: "filter_low_confidence_items_and_segments data (Fin (1/4)) = Inr data'"
      and r: "lambda_handler lower bedrock w data = Inr subs" by simp_all
    have "segments_to_translate (results data') = Inr cs"
      using d by (simp add: segments_to_translate_def)
    with f r have "translate_segments lower bedrock w cs = Inr subs"
      by (simp add: lambda_handler_def)
    from translate_segments_length [OF this] len show ?thesis by simp
  qed
  have a: "audio_segments (results data') = Some cs" using d by simp
  show ?thesis
  proof (intro exI [of _ cs] conjI allI impI ballI)
    show "audio_segments (results data') = Some cs" by (rule a)
    show "cs = map (rebuild (excluded_ids threshold its) its)
                     (filter (survives (excluded_ids threshold its) its) segs)"
      using cs by (simp add: kept_def low)
    show "subseq (filter (survives (excluded_ids threshold its) its) segs) segs"
      using sub by (simp add: kept_def low)
    show "length cs \<le> length segs" by (rule len)
  next
    fix seg'
    assume "seg' \<in> set cs"
    then show "\<exists>t. transcript seg' = Some t \<and> \<not> blank t" by (rule nb)
  next
    fix lower and bedrock :: "'w \<Rightarrow> request \<Rightarrow> invoke_result \<times> 'w" and w subs
    assume t: "translate_segments lower bedrock w cs = Inr subs"
    from tr [OF t] show "length subs = length cs" by (rule conjunct1)
    from tr [OF t] show "map sub_text subs = map (\<lambda>seg'. the (transcript seg')) cs"
      by (rule conjunct2)
  next
    fix lower and bedrock :: "'w \<Rightarrow> request \<Rightarrow> invoke_result \<times> 'w" and w subs
    assume "threshold = Fin (1/4) \<and> lambda_handler lower bedrock w data = Inr subs"
    then show "length subs \<le> length segs" by (rule h)
  qed
qed

theorem blank_segments_dropped_witness:
  "filter_low_confidence_items_and_segments scenario_data (Fin (1/4)) = Inr scenario_filtered
   \<and> items (results scenario_data) = Some scenario_items
   \<and> audio_segments (results scenario_data) = Some scenario_segments
   \<and> audio_segments (results scenario_filtered) = Some scenario_cleaned
   \<and> length scenario_cleaned \<le> length scenario_segments
   \<and> length scenario_cleaned = 2 \<and> length scenario_segments = 3"
proof -
  from blank_segments_dropped [OF scenario_filter_run scenario_fields]
  obtain cs where cs: "audio_segments (results scenario_filtered) = Some cs"
    and len: "length cs \<le> length scenario_segments"
    by (elim exE conjE)
  have c: "audio_segments (results scenario_filtered) = Some scenario_cleaned"
    by (simp add: scenario_filtered_def)
  with cs have "cs = scenario_cleaned" by simp
  with len have l: "length scenario_cleaned \<le> length scenario_segments" by simp
  have n: "length scenario_cleaned = 2" "length scenario_segments = 3"
    by (simp_all add: scenario_cleaned_def scenario_segments_def)
  from scenario_filter_run scenario_fields c l n show ?thesis by (intro conjI)
qed

text \<open>
  C7 fails on the code. A transcript without \<open>audio_segments\<close> makes the handler raise
  KeyError: the filter, which runs first, reads \<open>results["audio_segments"]\<close> (line 18).
  The fallback of lines 82 to 84 is never reached, and it reads \<open>results["audio"]\<close>, not
  \<open>results["items"]\<close>: on results with items, without \<open>audio_segments\<close> and without an
  entry \<open>audio\<close>, that lookup raises KeyError as well.
\<close>

theorem missing_segments_raise:
  assumes "audio_segments (results transcript_data) = None"
  shows "lambda_handler lower bedrock w transcript_data = Inl KeyError
       \<and> (items (results transcript_data) \<noteq> None \<and> audio (results transcript_data) = None
            \<longrightarrow> segments_to_translate (results transcript_data) = Inl KeyError)"
proof -
  have "filter_low_confidence_items_and_segments transcript_data (Fin (1/4)) = Inl KeyError"
    using assms
    by (simp add: filter_low_confidence_items_and_segments_def split: option.splits)
  then have "lambda_handler lower bedrock w transcript_data = Inl KeyError"
    by (simp add: lambda_handler_def)
  moreover have "segments_to_translate (results transcript_data) = Inl KeyError"
    if "items (results transcript_data) \<noteq> None \<and> audio (results transcript_data) = None"
    using that assms by (auto simp: segments_to_translate_def)
  ultimately show ?thesis by blast
qed

theorem missing_segments_raise_witness:
  "audio_segments (results items_only_data) = None
   \<and> items (results items_only_data) = Some scenario_items
   \<and> lambda_handler ascii_lower scenario_bedrock 0 items_only_data = Inl KeyError"
proof -
  have a: "audio_segments (results items_only_data) = None"
    by (simp add: items_only_data_def)
  have i: "items (results items_only_data) = Some scenario_items"
    by (simp add: items_only_data_def)
  from a i missing_segments_raise [OF a, of ascii_lower scenario_bedrock 0, THEN conjunct1]
  show ?thesis by (intro conjI)
qed

text \<open>
  C10. Every subtitle the handler emits has a target text of at least one character,
  whichever way the text was obtained: a translation that is not empty, the placeholder
  for an empty one, or the fallback after a failure.
\<close>

theorem subtitles_nonempty:
  fixes transcript_data :: "('a segment_scheme, 'r, 'd) transcript_data_scheme"
  assumes "lambda_handler lower bedrock w transcript_data = Inr subtitles"
  shows "\<forall>s \<in> set subtitles. ja_text s \<noteq> [] \<and> 1 \<le> length (ja_text s)"
proof
  fix s
  assume s: "s \<in> set subtitles"
  from assms obtain entries :: "'a segment_scheme list" where
    "translate_segments lower bedrock w entries = Inr subtitles"
    by (auto simp: lambda_handler_def split: sum.splits)
  from translate_segments_nonempty [OF this s] have "ja_text s \<noteq> []" .
  moreover from this have "1 \<le> length (ja_text s)"
    by (cases "ja_text s") simp_all
  ultimately show "ja_text s \<noteq> [] \<and> 1 \<le> length (ja_text s)" by (rule conjI)
qed

theorem subtitles_nonempty_witness:
  "lambda_handler ascii_lower scenario_bedrock 0 scenario_data = Inr scenario_subtitles
   \<and> ja_text (hd scenario_subtitles) \<noteq> []
   \<and> ja_text (last scenario_subtitles) \<noteq> []"
proof -
  note t = subtitles_nonempty [OF scenario_handled]
  have "hd scenario_subtitles \<in> set scenario_subtitles"
    "last scenario_subtitles \<in> set scenario_subtitles"
    by (simp_all add: scenario_subtitles_def)
  with t have "ja_text (hd scenario_subtitles) \<noteq> []"
    "ja_text (last scenario_subtitles) \<noteq> []"
    by blast+
  with scenario_handled show ?thesis by (intro conjI)
qed

end
